theory Spec2Isabelle
  imports Complex_Main "HOL-Library.Word" "HOL-Library.Sublist"
begin

section \<open>Incremental trajectory writer of Parcels: \<open>BaseParticleFile\<close>\<close>

text \<open>
  Shallow embedding of \<^verbatim>\<open>src/parcels/particlefile/baseparticlefile.py\<close>.
  Mutation of the writer object, of the particle collection and of the output directory is
  explicit state passing; every \<^verbatim>\<open>raise\<close> is an outcome of the model.
\<close>

subsection \<open>Errors and diagnostics\<close>

datatype error =
    IndexError
  | KeyError
  | ValueError
  | AttributeError
  | UnboundLocalError
  | FileNotFoundError
  | FileExistsError
  | NotADirectoryError
  | RuntimeError string

subsection \<open>Python dictionaries (insertion ordered)\<close>

fun dict_set :: "('k \<times> 'v) list \<Rightarrow> 'k \<Rightarrow> 'v \<Rightarrow> ('k \<times> 'v) list" where
  "dict_set [] k v = [(k, v)]"
| "dict_set ((k', v') # d) k v = (if k' = k then (k, v) # d else (k', v') # dict_set d k v)"

definition dict_keys :: "('k \<times> 'v) list \<Rightarrow> 'k list" where
  "dict_keys d = map fst d"

definition dict_get :: "('k \<times> 'v) list \<Rightarrow> 'k \<Rightarrow> error + 'v" where
  "dict_get d k = (case map_of d k of None \<Rightarrow> Inl KeyError | Some v \<Rightarrow> Inr v)"

subsection \<open>The particle collection\<close>

text \<open>
  Modelled from the spec: the particle collection class (\<^verbatim>\<open>pset.collection\<close> with
  \<^verbatim>\<open>getvardata\<close>, \<^verbatim>\<open>setvardata\<close>, \<^verbatim>\<open>setallvardata\<close>, \<^verbatim>\<open>_to_write_particles\<close>,
  \<^verbatim>\<open>_ncount\<close>, \<^verbatim>\<open>ptype\<close>) and the status codes of \<^verbatim>\<open>parcels.tools.statuscodes\<close> are
  not part of the two source files. Section 6 of the specification lists what the collection
  exposes: a count, a per-variable column fetch by index subset, a state-equality query, a
  "due for output at time T" query returning an index subset, get/set of the per-particle
  once-written flag, and a schema of variables (name, element type, write cadence).
\<close>

datatype status = Success | Evaluate | Repeat | Delete | StopExecution | Error

datatype scalar = IntVal int | FloatVal real | NaN

datatype dtype =
    Float16 | Float32 | Float64 | Bool
  | Int8 | Int16 | Int32 | Int64
  | UInt8 | UInt16 | UInt32 | UInt64

datatype cadence = WriteFalse | WriteTrue | WriteOnce

record variable =
  vname :: string
  vdtype :: dtype
  to_write :: cadence

record particle =
  pid :: int
  state :: status
  once_written :: int
  vars :: "string \<Rightarrow> scalar"

record collection =
  particles :: "particle list"
  due :: "particle \<Rightarrow> real \<Rightarrow> bool"
  ptype :: "variable list"

definition ncount :: "collection \<Rightarrow> nat" where
  "ncount c = length (particles c)"

text \<open>
  Index arrays are numpy integer arrays: a negative index counts from the end, an index
  outside \<open>[-n, n)\<close> raises \<^verbatim>\<open>IndexError\<close>.
\<close>

definition norm_index :: "nat \<Rightarrow> int \<Rightarrow> nat option" where
  "norm_index n i =
     (if 0 \<le> i \<and> i < int n then Some (nat i)
      else if - int n \<le> i \<and> i < 0 then Some (nat (int n + i))
      else None)"

fun take_indices :: "'a list \<Rightarrow> int list \<Rightarrow> error + 'a list" where
  "take_indices xs [] = Inr []"
| "take_indices xs (i # is) =
     (case norm_index (length xs) i of
        None \<Rightarrow> Inl IndexError
      | Some j \<Rightarrow> (case take_indices xs is of
                    Inl e \<Rightarrow> Inl e
                  | Inr ys \<Rightarrow> Inr (xs ! j # ys)))"

definition var_value :: "string \<Rightarrow> particle \<Rightarrow> scalar" where
  "var_value var p =
     (if var = ''id'' then IntVal (pid p)
      else if var = ''once_written'' then IntVal (once_written p)
      else vars p var)"

definition getvardata :: "collection \<Rightarrow> string \<Rightarrow> int list \<Rightarrow> error + scalar list" where
  "getvardata c var indices = take_indices (map (var_value var) (particles c)) indices"

definition getvardata_id :: "collection \<Rightarrow> int list \<Rightarrow> error + int list" where
  "getvardata_id c indices = take_indices (map pid (particles c)) indices"

definition getvardata_once_written :: "collection \<Rightarrow> int list \<Rightarrow> error + int list" where
  "getvardata_once_written c indices = take_indices (map once_written (particles c)) indices"

definition getvardata_state :: "collection \<Rightarrow> status list" where
  "getvardata_state c = map state (particles c)"

fun setvardata_once_written :: "particle list \<Rightarrow> int list \<Rightarrow> int list \<Rightarrow> particle list" where
  "setvardata_once_written ps (i # is) (v # vs) =
     (case norm_index (length ps) i of
        None \<Rightarrow> setvardata_once_written ps is vs
      | Some j \<Rightarrow> setvardata_once_written (ps[j := (ps ! j)\<lparr>once_written := v\<rparr>]) is vs)"
| "setvardata_once_written ps _ _ = ps"

definition setallvardata_once_written :: "collection \<Rightarrow> int \<Rightarrow> collection" where
  "setallvardata_once_written c v =
     c\<lparr>particles := map (\<lambda>p. p\<lparr>once_written := v\<rparr>) (particles c)\<rparr>"

definition to_write_particles :: "collection \<Rightarrow> real \<Rightarrow> int list" where
  "to_write_particles c t =
     map int (filter (\<lambda>k. due c (particles c ! k) t) [0 ..< length (particles c)])"

text \<open>\<^verbatim>\<open>ptype[var]\<close>: the first variable of the schema with that name.\<close>

definition ptype_lookup :: "variable list \<Rightarrow> string \<Rightarrow> error + variable" where
  "ptype_lookup vs var =
     (case find (\<lambda>v. vname v = var) vs of None \<Rightarrow> Inl AttributeError | Some v \<Rightarrow> Inr v)"

subsection \<open>numpy helpers\<close>

text \<open>\<^verbatim>\<open>np.where(a)[0]\<close> for a one-dimensional array: positions of the true entries.\<close>

definition np_where :: "bool list \<Rightarrow> nat list" where
  "np_where bs = filter (\<lambda>k. bs ! k) [0 ..< length bs]"

text \<open>\<^verbatim>\<open>a[ks] += 1\<close> with an index array: every position named in \<open>ks\<close> grows by one,
  once, however often it is named.\<close>

definition np_add_one_at :: "nat list \<Rightarrow> nat list \<Rightarrow> nat list" where
  "np_add_one_at a ks = map (\<lambda>k. if k \<in> set ks then a ! k + 1 else a ! k) [0 ..< length a]"

fun np_take :: "'a list \<Rightarrow> nat list \<Rightarrow> error + 'a list" where
  "np_take xs [] = Inr []"
| "np_take xs (k # ks) =
     (if k < length xs
      then (case np_take xs ks of Inl e \<Rightarrow> Inl e | Inr ys \<Rightarrow> Inr (xs ! k # ys))
      else Inl IndexError)"

subsection \<open>String formatting and paths\<close>

fun decimal :: "nat \<Rightarrow> string" where
  "decimal n =
     (if n < 10 then [''0123456789'' ! n]
      else decimal (n div 10) @ [''0123456789'' ! (n mod 10)])"

text \<open>\<^verbatim>\<open>'%0wd' % n\<close>: decimal digits, left-padded with zeros to width \<open>w\<close>.\<close>

declare decimal.simps [simp del]

definition zero_padded :: "nat \<Rightarrow> nat \<Rightarrow> string" where
  "zero_padded w n = replicate (w - length (decimal n)) (CHR ''0'') @ decimal n"

text \<open>\<^verbatim>\<open>os.path.splitext\<close> (POSIX): the extension starts at the last dot of the last path
  component, unless that component consists of leading dots only up to there.\<close>

fun rfind :: "char \<Rightarrow> string \<Rightarrow> nat option" where
  "rfind c [] = None"
| "rfind c (x # xs) =
     (case rfind c xs of
        Some k \<Rightarrow> Some (Suc k)
      | None \<Rightarrow> (if x = c then Some 0 else None))"

definition splitext :: "string \<Rightarrow> string \<times> string" where
  "splitext p =
     (let filenameIndex = (case rfind (CHR ''/'') p of None \<Rightarrow> 0 | Some k \<Rightarrow> Suc k)
      in case rfind (CHR ''.'') p of
           None \<Rightarrow> (p, [])
         | Some dotIndex \<Rightarrow>
             (if filenameIndex \<le> dotIndex \<and>
                 (\<exists>k \<in> set [filenameIndex ..< dotIndex]. p ! k \<noteq> CHR ''.'')
              then (take dotIndex p, drop dotIndex p)
              else (p, [])))"

text \<open>\<^verbatim>\<open>os.path.join(a, b)\<close> for a relative \<open>b\<close>.\<close>

definition path_join :: "string \<Rightarrow> string \<Rightarrow> string" where
  "path_join a b = (if a = [] \<or> last a = CHR ''/'' then a @ b else a @ ''/'' @ b)"

definition dirname :: "string \<Rightarrow> string" where
  "dirname p = (case rfind (CHR ''/'') p of None \<Rightarrow> [] | Some k \<Rightarrow> take k p)"

subsection \<open>Data frames and the output directory\<close>

record dataframe =
  index :: "(int \<times> nat) list"
  columns :: "(string \<times> scalar list) list"

text \<open>
  \<^verbatim>\<open>pd.DataFrame(data=dfdict, index=index)\<close> with a dictionary of one-dimensional arrays
  and an explicit index (pandas is a library, not part of the repository): a column as long
  as the index is taken as it is, a column of length one is repeated to the length of the
  index, and any other length raises \<^verbatim>\<open>ValueError\<close>.
\<close>

definition pd_DataFrame ::
  "(string \<times> scalar list) list \<Rightarrow> (int \<times> nat) list \<Rightarrow> error + dataframe" where
  "pd_DataFrame data idx =
     (if list_all (\<lambda>(name, col). length col = length idx \<or> length col = 1) data
      then Inr \<lparr>index = idx,
                columns = map (\<lambda>(name, col).
                    (name, if length col = length idx then col
                           else replicate (length idx) (hd col))) data\<rparr>
      else Inl ValueError)"

datatype node = Directory | ParquetFile dataframe | OtherFile

type_synonym filesystem = "string \<Rightarrow> node option"

definition path_exists :: "filesystem \<Rightarrow> string \<Rightarrow> bool" where
  "path_exists fs p = (fs p \<noteq> None)"

text \<open>\<^verbatim>\<open>shutil.rmtree\<close>: removes the directory and everything below it.\<close>

definition rmtree :: "filesystem \<Rightarrow> string \<Rightarrow> error + filesystem" where
  "rmtree fs p =
     (case fs p of
        None \<Rightarrow> Inl FileNotFoundError
      | Some Directory \<Rightarrow> Inr (\<lambda>q. if q = p \<or> prefix (p @ ''/'') q then None else fs q)
      | Some _ \<Rightarrow> Inl NotADirectoryError)"

text \<open>\<^verbatim>\<open>Path.mkdir(parents=True)\<close>; the creation of missing parents is not traced.\<close>

definition mkdir :: "filesystem \<Rightarrow> string \<Rightarrow> error + filesystem" where
  "mkdir fs p = (if path_exists fs p then Inl FileExistsError else Inr (fs(p \<mapsto> Directory)))"

text \<open>\<^verbatim>\<open>df.to_parquet(fname)\<close>: creates or replaces the file inside an existing directory.\<close>

definition to_parquet :: "filesystem \<Rightarrow> string \<Rightarrow> dataframe \<Rightarrow> error + filesystem" where
  "to_parquet fs fname df =
     (case fs (dirname fname) of
        None \<Rightarrow> Inl FileNotFoundError
      | Some Directory \<Rightarrow>
          (if fs fname = Some Directory then Inl NotADirectoryError
           else Inr (fs(fname \<mapsto> ParquetFile df)))
      | Some _ \<Rightarrow> Inl NotADirectoryError)"

subsection \<open>The writer\<close>

datatype fill = NaNFill | IntFill int

record writer =
  write_ondelete :: bool
  lasttime_written :: "real option"
  particleset_ptype :: "variable list"
  maxids :: nat
  obs_written :: "nat list"
  pids_written :: "(int \<times> nat) list"
  vars_to_write :: "(string \<times> dtype) list"
  mpi_rank :: nat
  fmt_map :: "(dtype \<times> string) list"
  fill_value_map :: "(dtype \<times> fill) list"
  fname :: string
  nfiles :: "nat option"

text \<open>The \<^verbatim>\<open>time\<close> argument of \<^verbatim>\<open>write\<close>: a number, or a \<^verbatim>\<open>timedelta\<close> of days,
  seconds and microseconds.\<close>

datatype timearg = Seconds real | TimeDelta int int int

definition total_seconds :: "int \<Rightarrow> int \<Rightarrow> int \<Rightarrow> real" where
  "total_seconds days secs us = real_of_int ((days * 86400 + secs) * 10 ^ 6 + us) / 10 ^ 6"

text \<open>
  The \<^verbatim>\<open>deleted_only\<close> argument: \<^verbatim>\<open>False\<close>; a scalar equal to \<^verbatim>\<open>True\<close> or \<^verbatim>\<open>1\<close>;
  any other scalar; a numpy array of integers (booleans are 0 and 1); a Python list of
  integers.
\<close>

datatype deleted_only = DFalse | DTrue | DOtherScalar | DArray "int list" | DList "int list"

datatype diagnostic = EmptyOnWriting real | PerProcessorFiles string

datatype outcome =
    Skipped
  | Warned diagnostic
  | Wrote string dataframe
  | Raised error

subsubsection \<open>\<^verbatim>\<open>np.iinfo(t).max\<close>, \<^verbatim>\<open>fmt_map\<close> and \<^verbatim>\<open>fill_value_map\<close>\<close>

datatype inttype = I8 | I16 | I32 | I64 | U8 | U16 | U32 | U64

fun iinfo_max :: "inttype \<Rightarrow> int" where
  "iinfo_max I8 = 2 ^ 7 - 1"
| "iinfo_max I16 = 2 ^ 15 - 1"
| "iinfo_max I32 = 2 ^ 31 - 1"
| "iinfo_max I64 = 2 ^ 63 - 1"
| "iinfo_max U8 = 2 ^ 8 - 1"
| "iinfo_max U16 = 2 ^ 16 - 1"
| "iinfo_max U32 = 2 ^ 32 - 1"
| "iinfo_max U64 = 2 ^ 64 - 1"

definition init_fmt_map :: "(dtype \<times> string) list" where
  "init_fmt_map =
     [(Float16, ''f2''), (Float32, ''f4''), (Float64, ''f8''),
      (Bool, ''i1''), (Int8, ''i1''), (Int16, ''i2''),
      (Int32, ''i4''), (Int64, ''i8''), (UInt8, ''u1''),
      (UInt16, ''u2''), (UInt32, ''u4''), (UInt64, ''u8'')]"

definition init_fill_value_map :: "(dtype \<times> fill) list" where
  "init_fill_value_map =
     [(Float16, NaNFill), (Float32, NaNFill), (Float64, NaNFill),
      (Bool, IntFill (iinfo_max I8)), (Int8, IntFill (iinfo_max I8)),
      (Int16, IntFill (iinfo_max I16)), (Int32, IntFill (iinfo_max I32)),
      (Int64, IntFill (iinfo_max I64)), (UInt8, IntFill (iinfo_max U8)),
      (UInt16, IntFill (iinfo_max U16)), (UInt32, IntFill (iinfo_max U32)),
      (UInt64, IntFill (iinfo_max U64))]"

subsubsection \<open>\<^verbatim>\<open>__init__\<close>\<close>

definition collect_vars_to_write :: "variable list \<Rightarrow> (string \<times> dtype) list" where
  "collect_vars_to_write vs =
     fold (\<lambda>var d. if to_write var \<noteq> WriteFalse then dict_set d (vname var) (vdtype var) else d)
          vs []"

text \<open>
  \<open>mpi\<close> is \<open>None\<close> when \<^verbatim>\<open>mpi4py\<close> is not importable, else the rank and the size of
  \<^verbatim>\<open>MPI.COMM_WORLD\<close>. The result is the constructed writer or the exception raised, the
  warnings logged, and the collection and the file system as the constructor leaves them.
  The once-written flags are reset (line 88) before the extension is examined, so also a
  constructor that raises has reset them. The attributes \<^verbatim>\<open>outputdt\<close>,
  \<^verbatim>\<open>parcels_mesh\<close>, \<^verbatim>\<open>time_origin\<close>, \<^verbatim>\<open>lonlatdepth_dtype\<close> and \<^verbatim>\<open>metadata\<close> are
  not read by \<^verbatim>\<open>write\<close> and are left out of the record.
\<close>

definition init ::
  "string \<Rightarrow> collection \<Rightarrow> bool \<Rightarrow> (nat \<times> nat) option \<Rightarrow> filesystem
     \<Rightarrow> (error + writer) \<times> diagnostic list \<times> collection \<times> filesystem" where
  "init name particleset ondelete mpi fs =
     (let self0 = \<lparr>write_ondelete = ondelete,
                   lasttime_written = None,
                   particleset_ptype = ptype particleset,
                   maxids = 0,
                   obs_written = [],
                   pids_written = [],
                   vars_to_write = collect_vars_to_write (ptype particleset),
                   mpi_rank = (case mpi of None \<Rightarrow> 0 | Some (rank, nprocs) \<Rightarrow> rank),
                   fmt_map = init_fmt_map,
                   fill_value_map = init_fill_value_map,
                   fname = [],
                   nfiles = None\<rparr>;
          pset = setallvardata_once_written particleset 0;
          extension = snd (splitext name)
      in if extension \<in> set [''.parquet'', ''.pqt'', ''.parq''] then
           (if (case mpi of None \<Rightarrow> False | Some (rank, nprocs) \<Rightarrow> nprocs > 1) then
              (let self1 = self0\<lparr>fname :=
                       path_join name (''proc'' @ zero_padded 2 (mpi_rank self0) @ ''.parquet'')\<rparr>
               in (Inr self1, [PerProcessorFiles (fname self1)], pset, fs))
            else
              (let self1 = self0\<lparr>fname :=
                       (if extension \<in> set [''.parquet'', ''.pqt'', ''.parq''] then name
                        else name @ ''.parquet''),
                     nfiles := Some 0\<rparr>;
                   parquet_folder = fname self1
               in case (if path_exists fs parquet_folder then rmtree fs parquet_folder
                        else Inr fs) of
                    Inl e \<Rightarrow> (Inl e, [], pset, fs)
                  | Inr fs1 \<Rightarrow>
                      (case mkdir fs1 parquet_folder of
                         Inl e \<Rightarrow> (Inl e, [], pset, fs1)
                       | Inr fs2 \<Rightarrow> (Inr self1, [], pset, fs2))))
         else if extension \<in> set [''.nc'', ''.nc4''] then
           (Inl (RuntimeError (''Output in NetCDF is not supported anymore. '' @
                   ''Use .parquet or extension for ParticleFile name.'')), [], pset, fs)
         else if extension \<in> set [''.zarr''] then
           (Inl (RuntimeError (''Output in zarr is not supported anymore. '' @
                   ''Use .parquet extension for ParticleFile name.'')), [], pset, fs)
         else
           (Inl (RuntimeError (''Output format '' @ extension @ '' not supported. '' @
                   ''Use .parquet extension for ParticleFile name.'')), [], pset, fs))"

subsubsection \<open>\<^verbatim>\<open>_convert_varout_name\<close> and \<^verbatim>\<open>write_once\<close>\<close>

definition convert_varout_name :: "string \<Rightarrow> string" where
  "convert_varout_name var =
     (if var = ''depth'' then ''z'' else if var = ''id'' then ''trajectory'' else var)"

definition write_once :: "writer \<Rightarrow> string \<Rightarrow> error + bool" where
  "write_once self var =
     (case ptype_lookup (particleset_ptype self) var of
        Inl e \<Rightarrow> Inl e
      | Inr v \<Rightarrow> Inr (to_write v = WriteOnce))"

subsubsection \<open>\<^verbatim>\<open>_set_calendar\<close> and \<^verbatim>\<open>_create_variables_attribute_dict\<close>\<close>

definition set_calendar :: "string \<Rightarrow> string" where
  "set_calendar origin_calendar =
     (if origin_calendar = ''np_datetime64'' then ''standard'' else origin_calendar)"

datatype attr_value = Text string | FillValue fill

type_synonym attrs = "(string \<times> (string \<times> attr_value) list) list"

text \<open>\<^verbatim>\<open>attrs[name][key] = value\<close> for a \<open>name\<close> that \<open>attrs\<close> holds.\<close>

definition set_attr :: "attrs \<Rightarrow> string \<Rightarrow> string \<Rightarrow> attr_value \<Rightarrow> attrs" where
  "set_attr ats name key v =
     map (\<lambda>(n, inner). if n = name then (n, dict_set inner key v) else (n, inner)) ats"

text \<open>Lines 175 to 180.\<close>

fun attrs_loop :: "writer \<Rightarrow> string list \<Rightarrow> (string \<times> dtype) list \<Rightarrow> attrs \<Rightarrow> error + attrs" where
  "attrs_loop self reserved [] ats = Inr ats"
| "attrs_loop self reserved ((vn, dt) # rest) ats =
     (if vn \<notin> set reserved then
        (case dict_get (fill_value_map self) dt of
           Inl e \<Rightarrow> Inl e
         | Inr fv \<Rightarrow>
             attrs_loop self reserved rest
               (dict_set ats vn
                  [(''_FillValue'', FillValue fv),
                   (''long_name'', Text []),
                   (''standard_name'', Text vn),
                   (''units'', Text ''unknown'')]))
      else attrs_loop self reserved rest ats)"

text \<open>
  \<open>reserved\<close> stands for the result of the abstract method \<^verbatim>\<open>_reserved_var_names\<close>,
  \<open>calendar\<close> for \<^verbatim>\<open>self.time_origin.calendar\<close> and \<open>origin\<close> for
  \<^verbatim>\<open>str(self.time_origin)\<close>.
\<close>

definition create_variables_attribute_dict ::
  "writer \<Rightarrow> string list \<Rightarrow> string option \<Rightarrow> string \<Rightarrow> error + attrs" where
  "create_variables_attribute_dict self reserved calendar origin =
     (case dict_get (fill_value_map self) Int64 of
        Inl e \<Rightarrow> Inl e
      | Inr fv64 \<Rightarrow>
          (let attrs0 =
                 [(''z'', [(''long_name'', Text []),
                           (''standard_name'', Text ''depth''),
                           (''units'', Text ''m''),
                           (''positive'', Text ''down'')]),
                  (''trajectory'', [(''long_name'', Text ''Unique identifier for each particle''),
                                    (''cf_role'', Text ''trajectory_id''),
                                    (''_FillValue'', FillValue fv64)]),
                  (''time'', [(''long_name'', Text []),
                              (''standard_name'', Text ''time''),
                              (''units'', Text ''seconds''),
                              (''axis'', Text ''T'')]),
                  (''lon'', [(''long_name'', Text []),
                             (''standard_name'', Text ''longitude''),
                             (''units'', Text ''degrees_east''),
                             (''axis'', Text ''X'')]),
                  (''lat'', [(''long_name'', Text []),
                             (''standard_name'', Text ''latitude''),
                             (''units'', Text ''degrees_north''),
                             (''axis'', Text ''Y'')])];
               attrs1 =
                 (case calendar of
                    None \<Rightarrow> attrs0
                  | Some cal \<Rightarrow>
                      set_attr
                        (set_attr attrs0 ''time'' ''units'' (Text (''seconds since '' @ origin)))
                        ''time'' ''calendar''
                        (Text (if cal = ''np_datetime64'' then ''standard'' else cal)))
           in attrs_loop self reserved (vars_to_write self) attrs1))"

subsubsection \<open>\<^verbatim>\<open>write\<close>\<close>

text \<open>Lines 232 to 244: which rows to write. A periodic write records its time.\<close>

definition select_indices ::
  "writer \<Rightarrow> collection \<Rightarrow> real \<Rightarrow> deleted_only \<Rightarrow> (error + int list) \<times> writer" where
  "select_indices self pset time d =
     (if d \<noteq> DFalse then
        (case d of
           DTrue \<Rightarrow>
             (Inr (map int (np_where (map (\<lambda>s. s \<in> set [Delete]) (getvardata_state pset)))),
              self)
         | DArray a \<Rightarrow>
             (if set a \<subseteq> set [0, 1] then (Inr (map int (np_where (map (\<lambda>x. x \<noteq> 0) a))), self)
              else (Inr a, self))
         | DList l \<Rightarrow> (Inr l, self)
         | _ \<Rightarrow> (Inl UnboundLocalError, self))
      else (Inr (to_write_particles pset time), self\<lparr>lasttime_written := Some time\<rparr>))"

text \<open>Lines 248 to 252: the identity registry.\<close>

definition to_add :: "(int \<times> nat) list \<Rightarrow> int list \<Rightarrow> int list" where
  "to_add pw pids = sort (remdups (filter (\<lambda>p. p \<notin> set (dict_keys pw)) pids))"

fun lookup_all :: "(int \<times> nat) list \<Rightarrow> int list \<Rightarrow> error + nat list" where
  "lookup_all pw [] = Inr []"
| "lookup_all pw (p # ps) =
     (case dict_get pw p of
        Inl e \<Rightarrow> Inl e
      | Inr i \<Rightarrow> (case lookup_all pw ps of Inl e \<Rightarrow> Inl e | Inr is \<Rightarrow> Inr (i # is)))"

definition register_pids :: "writer \<Rightarrow> int list \<Rightarrow> (error + nat list) \<times> writer" where
  "register_pids self pids =
     (let pw = fold (\<lambda>(i, pid) d. dict_set d pid (maxids self + i))
                    (enumerate 0 (to_add (pids_written self) pids))
                    (pids_written self);
          self1 = self\<lparr>pids_written := pw\<rparr>
      in case lookup_all pw pids of
           Inl e \<Rightarrow> (Inl e, self1)
         | Inr ids \<Rightarrow> (Inr ids, self1\<lparr>maxids := length pw\<rparr>))"

text \<open>Lines 261 to 267: the columns of the chunk.\<close>

fun build_dfdict ::
  "writer \<Rightarrow> collection \<Rightarrow> int list \<Rightarrow> int list \<Rightarrow> (string \<times> dtype) list
     \<Rightarrow> (string \<times> scalar list) list \<Rightarrow> error + (string \<times> scalar list) list" where
  "build_dfdict self pset indices_to_write indices_to_write_once [] dfdict = Inr dfdict"
| "build_dfdict self pset indices_to_write indices_to_write_once ((var, dt) # rest) dfdict =
     (let varout = convert_varout_name var
      in if varout \<notin> set [''trajectory''] then
           (case write_once self var of
              Inl e \<Rightarrow> Inl e
            | Inr once \<Rightarrow>
                (case getvardata pset var
                        (if once then indices_to_write_once else indices_to_write) of
                   Inl e \<Rightarrow> Inl e
                 | Inr col \<Rightarrow>
                     build_dfdict self pset indices_to_write indices_to_write_once rest
                       (dict_set dfdict varout col)))
         else build_dfdict self pset indices_to_write indices_to_write_once rest dfdict)"

text \<open>Line 254: the positions, among the selected rows, whose once-written flag is 0.\<close>

definition once_ids_of :: "int list \<Rightarrow> nat list" where
  "once_ids_of flags = np_where (map (\<lambda>f. f = 0) flags)"

text \<open>
  Lines 269 to 273: before the first chunk the counter array is set to zeros, one per
  selected row; then it is extended with zeros up to \<^verbatim>\<open>maxids\<close>.
  \<^verbatim>\<open>np.int\<close> is taken to be the integer type (numpy before 1.24).
\<close>

definition prepare_obs_written :: "nat \<Rightarrow> nat list \<Rightarrow> nat \<Rightarrow> nat \<Rightarrow> nat list" where
  "prepare_obs_written nf obs n_ids maxids' =
     (let obs0 = (if nf = 0 then replicate n_ids 0 else obs)
      in if maxids' > length obs0 then obs0 @ replicate (maxids' - length obs0) 0 else obs0)"

text \<open>
  Lines 269 to 289: observation indices, the data frame, the file, the counters. A writer
  constructed in MPI mode has no attribute \<^verbatim>\<open>nfiles\<close>; reading it raises
  \<^verbatim>\<open>AttributeError\<close>. The chunk number is incremented before the file is written.
\<close>

definition emit_chunk ::
  "writer \<Rightarrow> collection \<Rightarrow> int list \<Rightarrow> nat list \<Rightarrow> (string \<times> scalar list) list
     \<Rightarrow> filesystem \<Rightarrow> outcome \<times> writer \<times> collection \<times> filesystem" where
  "emit_chunk self1 pset1 pids ids dfdict fs =
     (case nfiles self1 of
        None \<Rightarrow> (Raised AttributeError, self1, pset1, fs)
      | Some nf \<Rightarrow>
     (let obs1 = prepare_obs_written nf (obs_written self1) (length ids) (maxids self1);
          self2 = self1\<lparr>obs_written := obs1\<rparr>
      in case np_take obs1 ids of
           Inl e \<Rightarrow> (Raised e, self2, pset1, fs)
         | Inr obs \<Rightarrow>
     (case pd_DataFrame dfdict (zip pids obs) of
        Inl e \<Rightarrow> (Raised e, self2, pset1, fs)
      | Inr df \<Rightarrow>
     (let fname = fname self2 @ ''/p'' @ zero_padded 3 nf @ ''.parquet'';
          self3 = self2\<lparr>nfiles := Some (nf + 1)\<rparr>
      in case to_parquet fs fname df of
           Inl e \<Rightarrow> (Raised e, self3, pset1, fs)
         | Inr fs1 \<Rightarrow>
             (Wrote fname df, self3\<lparr>obs_written := np_add_one_at obs1 ids\<rparr>, pset1, fs1)))))"

text \<open>
  Lines 254 to 257: the once-written flags of the selected rows are read, then set. The
  positions \<^verbatim>\<open>once_ids\<close> come from \<^verbatim>\<open>np.where\<close> over an array as long as \<^verbatim>\<open>ids\<close>
  and \<^verbatim>\<open>indices_to_write\<close>, so the two reads by position are in range.
\<close>

definition mark_once_written :: "collection \<Rightarrow> int list \<Rightarrow> nat list \<Rightarrow> int list \<Rightarrow> int list \<times> collection" where
  "mark_once_written pset indices_to_write ids flags =
     (let once_ids = once_ids_of flags;
          ids_once = map (\<lambda>k. ids ! k) once_ids;
          indices_to_write_once = map (\<lambda>k. indices_to_write ! k) once_ids
      in (indices_to_write_once,
          pset\<lparr>particles := setvardata_once_written (particles pset)
                   indices_to_write_once (replicate (length ids_once) 1)\<rparr>))"

text \<open>Lines 247 to 289, entered with a non-empty \<^verbatim>\<open>indices_to_write\<close>. An exception
  leaves the writer and the collection as they were changed up to that line.\<close>

definition write_rows ::
  "writer \<Rightarrow> collection \<Rightarrow> int list \<Rightarrow> filesystem
     \<Rightarrow> outcome \<times> writer \<times> collection \<times> filesystem" where
  "write_rows self pset indices_to_write fs =
     (case getvardata_id pset indices_to_write of
        Inl e \<Rightarrow> (Raised e, self, pset, fs)
      | Inr pids \<Rightarrow>
     (case register_pids self pids of
        (Inl e, self1) \<Rightarrow> (Raised e, self1, pset, fs)
      | (Inr ids, self1) \<Rightarrow>
     (case getvardata_once_written pset indices_to_write of
        Inl e \<Rightarrow> (Raised e, self1, pset, fs)
      | Inr flags \<Rightarrow>
     (case mark_once_written pset indices_to_write ids flags of
        (indices_to_write_once, pset1) \<Rightarrow>
     (case build_dfdict self1 pset1 indices_to_write indices_to_write_once
                (vars_to_write self1) [] of
        Inl e \<Rightarrow> (Raised e, self1, pset1, fs)
      | Inr dfdict \<Rightarrow> emit_chunk self1 pset1 pids ids dfdict fs)))))"

text \<open>Line 225: a \<^verbatim>\<open>timedelta\<close> is read as its total seconds.\<close>

definition time_value :: "timearg \<Rightarrow> real" where
  "time_value time_arg =
     (case time_arg of TimeDelta days secs us \<Rightarrow> total_seconds days secs us | Seconds t \<Rightarrow> t)"

definition "write" ::
  "writer \<Rightarrow> collection \<Rightarrow> timearg \<Rightarrow> deleted_only \<Rightarrow> filesystem
     \<Rightarrow> outcome \<times> writer \<times> collection \<times> filesystem" where
  "write self pset time_arg d fs =
     (let time = time_value time_arg
      in if lasttime_written self \<noteq> Some time \<and> (write_ondelete self = False \<or> d \<noteq> DFalse) then
           (if ncount pset = 0 then (Warned (EmptyOnWriting time), self, pset, fs)
            else
              (case select_indices self pset time d of
                 (Inl e, self1) \<Rightarrow> (Raised e, self1, pset, fs)
               | (Inr indices_to_write, self1) \<Rightarrow>
                   (if length indices_to_write > 0
                    then write_rows self1 pset indices_to_write fs
                    else (Skipped, self1, pset, fs))))
         else (Skipped, self, pset, fs))"

subsection \<open>Sequences of writes, registry and counters\<close>

text \<open>
  A run of the simulation calls \<^verbatim>\<open>write\<close> again and again on the same writer. Between two
  calls the simulation changes the collection at will, so every call comes with the
  collection as it is then; the writer and the output directory are threaded through. The
  chunks are collected in the order they are emitted.
\<close>

type_synonym call = "collection \<times> timearg \<times> deleted_only"

fun writes :: "writer \<Rightarrow> filesystem \<Rightarrow> call list \<Rightarrow> writer \<times> filesystem \<times> dataframe list" where
  "writes self fs [] = (self, fs, [])"
| "writes self fs ((pset, t, d) # calls) =
     (case write self pset t d fs of
        (out, self1, pset1, fs1) \<Rightarrow>
          (case writes self1 fs1 calls of
             (self2, fs2, chunks) \<Rightarrow>
               (self2, fs2, (case out of Wrote f df \<Rightarrow> [df] | _ \<Rightarrow> []) @ chunks)))"

text \<open>The observation indices emitted for identity \<open>p\<close>, in emission order.\<close>

definition emitted_obs :: "dataframe list \<Rightarrow> int \<Rightarrow> nat list" where
  "emitted_obs chunks p = map snd (filter (\<lambda>row. fst row = p) (concat (map index chunks)))"

text \<open>The observation counter of identity \<open>p\<close>: the entry of \<^verbatim>\<open>obs_written\<close> at its local
  index; 0 for an identity not registered or not yet covered by the array.\<close>

definition obs_at :: "nat list \<Rightarrow> nat \<Rightarrow> nat" where
  "obs_at obs i = (if i < length obs then obs ! i else 0)"

definition counter :: "writer \<Rightarrow> int \<Rightarrow> nat" where
  "counter self p =
     (case map_of (pids_written self) p of None \<Rightarrow> 0 | Some i \<Rightarrow> obs_at (obs_written self) i)"

text \<open>The registry is a bijection between the registered identities and
  \<open>0, \<dots>, maxids - 1\<close>, in registration order.\<close>

definition registry_inv :: "writer \<Rightarrow> bool" where
  "registry_inv self \<longleftrightarrow>
     maxids self = length (pids_written self)
     \<and> distinct (dict_keys (pids_written self))
     \<and> map snd (pids_written self) = [0 ..< length (pids_written self)]"

definition counters_inv :: "writer \<Rightarrow> bool" where
  "counters_inv self \<longleftrightarrow>
     registry_inv self
     \<and> (nfiles self = Some 0 \<longrightarrow> list_all (\<lambda>c. c = 0) (obs_written self))
     \<and> list_all (\<lambda>k. obs_written self ! k = 0) [maxids self ..< length (obs_written self)]"

text \<open>The registry after a batch of identities \<open>pids\<close>: the identities not yet known
  are appended in ascending order, numbered consecutively from \<open>m\<close>.\<close>

definition registered :: "(int \<times> nat) list \<Rightarrow> nat \<Rightarrow> int list \<Rightarrow> (int \<times> nat) list" where
  "registered pw m pids = pw @ zip (to_add pw pids) [m ..< m + length (to_add pw pids)]"

definition register_state :: "writer \<Rightarrow> int list \<Rightarrow> writer" where
  "register_state self pids =
     self\<lparr>pids_written := registered (pids_written self) (maxids self) pids,
          maxids := length (registered (pids_written self) (maxids self) pids)\<rparr>"

definition local_ids :: "writer \<Rightarrow> int list \<Rightarrow> nat list" where
  "local_ids self pids =
     map (\<lambda>p. the (map_of (registered (pids_written self) (maxids self) pids) p)) pids"

text \<open>What one call does to the counters: a call that emits a chunk gives every selected
  identity its current counter as observation index and adds one to that counter; any other
  call leaves all counters as they are.\<close>

definition step_ok :: "writer \<Rightarrow> outcome \<Rightarrow> writer \<Rightarrow> bool" where
  "step_ok self out self' \<longleftrightarrow>
     (case out of
        Wrote f df \<Rightarrow>
          index df = map (\<lambda>p. (p, counter self p)) (map fst (index df))
          \<and> (\<forall>p. counter self' p = counter self p + (if p \<in> set (map fst (index df)) then 1 else 0))
      | _ \<Rightarrow> \<forall>p. counter self' p = counter self p)"

subsection \<open>Conditions under which a chunk is assembled and persisted\<close>

text \<open>Every index lies in \<open>[-n, n)\<close>.\<close>

definition valid_indices :: "nat \<Rightarrow> int list \<Rightarrow> bool" where
  "valid_indices n idx \<longleftrightarrow> list_all (\<lambda>i. - int n \<le> i \<and> i < int n) idx"

text \<open>No output column is a write-once variable (and every output variable is in the schema).\<close>

definition no_write_once :: "writer \<Rightarrow> bool" where
  "no_write_once self \<longleftrightarrow>
     list_all (\<lambda>(var, dt). convert_varout_name var = ''trajectory'' \<or> write_once self var = Inr False)
       (vars_to_write self)"

subsection \<open>Reading the result of a call\<close>

definition outcome_of :: "outcome \<times> writer \<times> collection \<times> filesystem \<Rightarrow> outcome" where
  "outcome_of r = fst r"

definition writer_of :: "outcome \<times> writer \<times> collection \<times> filesystem \<Rightarrow> writer" where
  "writer_of r = fst (snd r)"

definition collection_of :: "outcome \<times> writer \<times> collection \<times> filesystem \<Rightarrow> collection" where
  "collection_of r = fst (snd (snd r))"

definition filesystem_of :: "outcome \<times> writer \<times> collection \<times> filesystem \<Rightarrow> filesystem" where
  "filesystem_of r = snd (snd (snd r))"

fun is_Wrote :: "outcome \<Rightarrow> bool" where
  "is_Wrote (Wrote f df) = True"
| "is_Wrote _ = False"

subsection \<open>Representable values of the element types\<close>

text \<open>
  The integers an element type can hold: the two truth values for the boolean type, the
  two's-complement range for a signed type, the unsigned range for an unsigned type. (The
  floating types hold no integer sentinel; their fill value is not a number.)
\<close>

fun representable :: "dtype \<Rightarrow> int set" where
  "representable Bool = range (of_bool :: bool \<Rightarrow> int)"
| "representable Int8 = range (sint :: 8 word \<Rightarrow> int)"
| "representable Int16 = range (sint :: 16 word \<Rightarrow> int)"
| "representable Int32 = range (sint :: 32 word \<Rightarrow> int)"
| "representable Int64 = range (sint :: 64 word \<Rightarrow> int)"
| "representable UInt8 = range (uint :: 8 word \<Rightarrow> int)"
| "representable UInt16 = range (uint :: 16 word \<Rightarrow> int)"
| "representable UInt32 = range (uint :: 32 word \<Rightarrow> int)"
| "representable UInt64 = range (uint :: 64 word \<Rightarrow> int)"
| "representable _ = {}"

subsection \<open>Concrete inputs\<close>

definition plain_ptype :: "variable list" where
  "plain_ptype =
     [\<lparr>vname = ''lon'', vdtype = Float32, to_write = WriteTrue\<rparr>,
      \<lparr>vname = ''id'', vdtype = Int64, to_write = WriteTrue\<rparr>,
      \<lparr>vname = ''state'', vdtype = Int32, to_write = WriteFalse\<rparr>]"

definition once_ptype :: "variable list" where
  "once_ptype = plain_ptype @ [\<lparr>vname = ''age0'', vdtype = Float32, to_write = WriteOnce\<rparr>]"

definition example_particle :: "int \<Rightarrow> status \<Rightarrow> int \<Rightarrow> particle" where
  "example_particle i s flag =
     \<lparr>pid = i, state = s, once_written = flag, vars = (\<lambda>v. IntVal (100 * i))\<rparr>"

definition example_pset :: "variable list \<Rightarrow> int list \<Rightarrow> collection" where
  "example_pset vs is =
     \<lparr>particles = map (\<lambda>i. example_particle i Success 0) is,
      due = (\<lambda>p t. True),
      ptype = vs\<rparr>"

definition empty_fs :: filesystem where
  "empty_fs = (\<lambda>p. None)"

definition example_writer :: "variable list \<Rightarrow> bool \<Rightarrow> writer" where
  "example_writer vs ondelete =
     \<lparr>write_ondelete = ondelete,
      lasttime_written = None,
      particleset_ptype = vs,
      maxids = 0,
      obs_written = [],
      pids_written = [],
      vars_to_write = collect_vars_to_write vs,
      mpi_rank = 0,
      fmt_map = init_fmt_map,
      fill_value_map = init_fill_value_map,
      fname = ''out.parquet'',
      nfiles = Some 0\<rparr>"

definition example_fs :: filesystem where
  "example_fs = empty_fs(''out.parquet'' \<mapsto> Directory)"

definition old_chunk :: dataframe where
  "old_chunk = \<lparr>index = [(1, 0)], columns = [(''lon'', [IntVal 100])]\<rparr>"

definition used_fs :: filesystem where
  "used_fs = empty_fs(''out.parquet'' \<mapsto> Directory,
                      ''out.parquet/p000.parquet'' \<mapsto> ParquetFile old_chunk,
                      ''other'' \<mapsto> OtherFile)"

definition written_pset :: collection where
  "written_pset =
     \<lparr>particles = [example_particle 1 Success 1, example_particle 2 Success 1],
      due = (\<lambda>p t. True),
      ptype = once_ptype\<rparr>"

definition first_write :: "outcome \<times> writer \<times> collection \<times> filesystem" where
  "first_write =
     write (example_writer plain_ptype False) (example_pset plain_ptype [1, 2]) (Seconds 0)
       DFalse example_fs"

definition batch1 :: "writer \<times> filesystem \<times> dataframe list" where
  "batch1 =
     writes (example_writer plain_ptype False) example_fs
       [(example_pset plain_ptype [10, 20, 30], Seconds 0, DFalse)]"

definition batch2 :: "writer \<times> filesystem \<times> dataframe list" where
  "batch2 =
     writes (fst batch1) (fst (snd batch1))
       [(example_pset plain_ptype [40, 20], Seconds 1, DFalse)]"

definition scenario_calls :: "call list" where
  "scenario_calls =
     [(example_pset plain_ptype [1, 2], Seconds 0, DFalse),
      (example_pset plain_ptype [1, 2], Seconds 0, DFalse),
      (example_pset plain_ptype [1, 2, 3], Seconds 1, DFalse)]"

definition scenario :: "writer \<times> filesystem \<times> dataframe list" where
  "scenario = writes (example_writer plain_ptype False) example_fs scenario_calls"

definition twice_selected :: "writer \<times> filesystem \<times> dataframe list" where
  "twice_selected =
     writes (example_writer plain_ptype False) example_fs
       [(example_pset plain_ptype [5], Seconds 0, DList [0, 0])]"

definition ondelete_result :: "outcome \<times> writer \<times> collection \<times> filesystem" where
  "ondelete_result =
     write (example_writer plain_ptype True) (example_pset plain_ptype [1, 2, 3]) (Seconds 2)
       (DList [1]) example_fs"

definition once_first :: "outcome \<times> writer \<times> collection \<times> filesystem" where
  "once_first =
     write (example_writer once_ptype False) (example_pset once_ptype [1]) (Seconds 0) DFalse
       example_fs"

definition once_second :: "outcome \<times> writer \<times> collection \<times> filesystem" where
  "once_second =
     write (writer_of once_first) (collection_of once_first) (Seconds 1) DFalse
       (filesystem_of once_first)"

definition once_with_newcomer :: "outcome \<times> writer \<times> collection \<times> filesystem" where
  "once_with_newcomer =
     write (writer_of once_first)
       ((collection_of once_first)\<lparr>particles :=
           particles (collection_of once_first) @ [example_particle 2 Success 0]\<rparr>)
       (Seconds 1) DFalse (filesystem_of once_first)"

text \<open>A population released one particle at a time: particle \<open>i\<close> is due for output
  from time \<open>i - 1\<close> on. An earlier writer has flagged all three particles.\<close>

definition release_pset :: collection where
  "release_pset =
     \<lparr>particles = [example_particle 1 Success 1, example_particle 2 Success 1,
                   example_particle 3 Success 1],
      due = (\<lambda>p t. real_of_int (pid p) \<le> t + 1),
      ptype = once_ptype\<rparr>"

definition release_init ::
  "(error + writer) \<times> diagnostic list \<times> collection \<times> filesystem" where
  "release_init = init ''out.parquet'' release_pset False None empty_fs"

definition release_first :: "outcome \<times> writer \<times> collection \<times> filesystem" where
  "release_first =
     write (example_writer once_ptype False) (fst (snd (snd release_init))) (Seconds 0) DFalse
       (snd (snd (snd release_init)))"

definition release_second :: "outcome \<times> writer \<times> collection \<times> filesystem" where
  "release_second =
     write (writer_of release_first) (collection_of release_first) (Seconds 2) DFalse
       (filesystem_of release_first)"

section \<open>Properties\<close>

subsection \<open>Resolution of the deletion subset\<close>

lemma np_where_filter: "np_where (map P xs) = filter (\<lambda>k. P (xs ! k)) [0 ..< length xs]"
  by (auto simp: np_where_def intro: filter_cong)

lemma indicator_where:
  assumes "set a \<subseteq> {0, 1::int}"
  shows "filter (\<lambda>k. a ! k \<noteq> 0) [0 ..< length a] = filter (\<lambda>k. a ! k = 1) [0 ..< length a]"
proof (rule filter_cong[OF refl])
  fix k assume "k \<in> set [0 ..< length a]"
  then have "a ! k \<in> set a" by simp
  with assms have "a ! k = 0 \<or> a ! k = 1" by auto
  then show "(a ! k \<noteq> 0) = (a ! k = 1)" by auto
qed

text \<open>
  Claim C8, as stated, fails for an explicit index array: the array \<open>[1]\<close>, naming the
  particle at index 1, has all its entries in \<open>{0, 1}\<close>, is read as an indicator and
  resolves to index 0. The write then emits the row of identity 7 and none for identity 8.
\<close>

theorem index_array_counterexample:
  "fst (select_indices (example_writer plain_ptype True) (example_pset plain_ptype [7, 8, 9]) 2
         (DArray [1])) = Inr [0]
   \<and> fst (select_indices (example_writer plain_ptype True) (example_pset plain_ptype [7, 8, 9]) 2
         (DArray [1])) \<noteq> Inr [1]
   \<and> outcome_of (write (example_writer plain_ptype True) (example_pset plain_ptype [7, 8, 9])
         (Seconds 2) (DArray [1]) example_fs)
       = Wrote ''out.parquet/p000.parquet''
           \<lparr>index = [(7, 0)], columns = [(''lon'', [IntVal 700])]\<rparr>"
  by code_simp

text \<open>
  Claim C8, amended. The deletion-subset argument is resolved to an index array as follows:
  the scalar \<^verbatim>\<open>True\<close> gives the indices of all particles whose state is the deleted
  state; a numpy array all of whose entries are 0 or 1 is taken as an indicator and gives
  the positions where it is 1, also when it was meant as an array of indices; a numpy
  array with an entry other than 0 and 1 is passed through as it is; an explicit Python
  list is passed through as it is. The writer itself is not changed by the resolution.
\<close>

theorem deleted_only_resolution:
  "select_indices self pset time DTrue =
     (Inr (map int (filter (\<lambda>k. state (particles pset ! k) = Delete) [0 ..< ncount pset])), self)
   \<and> (set a \<subseteq> {0, 1} \<longrightarrow> select_indices self pset time (DArray a) =
     (Inr (map int (filter (\<lambda>k. a ! k = 1) [0 ..< length a])), self))
   \<and> (\<not> set a \<subseteq> {0, 1} \<longrightarrow> select_indices self pset time (DArray a) = (Inr a, self))
   \<and> select_indices self pset time (DList l) = (Inr l, self)"
proof (intro conjI impI)
  show "select_indices self pset time DTrue =
     (Inr (map int (filter (\<lambda>k. state (particles pset ! k) = Delete) [0 ..< ncount pset])), self)"
    by (auto simp: select_indices_def np_where_filter getvardata_state_def ncount_def
        intro!: filter_cong)
next
  assume "set a \<subseteq> {0, 1}"
  then show "select_indices self pset time (DArray a) =
     (Inr (map int (filter (\<lambda>k. a ! k = 1) [0 ..< length a])), self)"
    by (simp add: select_indices_def np_where_filter indicator_where)
next
  assume "\<not> set a \<subseteq> {0, 1}"
  then show "select_indices self pset time (DArray a) = (Inr a, self)"
    by (simp add: select_indices_def)
next
  show "select_indices self pset time (DList l) = (Inr l, self)"
    by (simp add: select_indices_def)
qed

theorem deleted_only_resolution_witness:
  "set [0, 1, 1, 0 :: int] \<subseteq> {0, 1}
   \<and> select_indices (example_writer plain_ptype True) (example_pset plain_ptype [7, 8, 9, 10]) 2
       (DArray [0, 1, 1, 0])
     = (Inr [1, 2], example_writer plain_ptype True)
   \<and> \<not> set [2, 0 :: int] \<subseteq> {0, 1}
   \<and> select_indices (example_writer plain_ptype True) (example_pset plain_ptype [7, 8, 9, 10]) 2
       (DArray [2, 0])
     = (Inr [2, 0], example_writer plain_ptype True)
   \<and> select_indices (example_writer plain_ptype True) (example_pset plain_ptype [7, 8, 9, 10]) 2
       (DList [1, 0])
     = (Inr [1, 0], example_writer plain_ptype True)"
proof -
  have a: "set [0, 1, 1, 0 :: int] \<subseteq> {0, 1}" by simp
  have b: "\<not> set [2, 0 :: int] \<subseteq> {0, 1}" by simp
  note t1 = deleted_only_resolution
    [of "example_writer plain_ptype True" "example_pset plain_ptype [7, 8, 9, 10]" 2
        "[0, 1, 1, 0]" "[1, 0]"]
  note t2 = deleted_only_resolution
    [of "example_writer plain_ptype True" "example_pset plain_ptype [7, 8, 9, 10]" 2
        "[2, 0]" "[1, 0]"]
  have c: "select_indices (example_writer plain_ptype True)
              (example_pset plain_ptype [7, 8, 9, 10]) 2 (DArray [0, 1, 1, 0])
     = (Inr [1, 2], example_writer plain_ptype True)"
    using t1 a by (simp add: upt_conv_Cons)
  have d: "select_indices (example_writer plain_ptype True)
              (example_pset plain_ptype [7, 8, 9, 10]) 2 (DArray [2, 0])
     = (Inr [2, 0], example_writer plain_ptype True)"
    using t2 b by blast
  have e: "select_indices (example_writer plain_ptype True)
              (example_pset plain_ptype [7, 8, 9, 10]) 2 (DList [1, 0])
     = (Inr [1, 0], example_writer plain_ptype True)"
    using t1 by blast
  show ?thesis using a b c d e by blast
qed

subsection \<open>Empty population\<close>

text \<open>
  Claim C7. When the gate of \<^verbatim>\<open>write\<close> lets the call through (the time differs from the
  last periodic write time, and the mode is periodic or a deletion subset is given) and the
  population is empty, the call only logs the warning: the writer (registry, observation
  counters, chunk number, last periodic write time), the collection and the output
  directory are returned unchanged.
\<close>

theorem write_empty_population:
  assumes "lasttime_written self \<noteq> Some (time_value t)"
      and "write_ondelete self = False \<or> d \<noteq> DFalse"
      and "ncount pset = 0"
  shows "write self pset t d fs = (Warned (EmptyOnWriting (time_value t)), self, pset, fs)"
  using assms by (simp add: write_def)

theorem write_empty_population_witness:
  "lasttime_written (example_writer plain_ptype False) \<noteq> Some (time_value (Seconds 5))
   \<and> (write_ondelete (example_writer plain_ptype False) = False \<or> DFalse \<noteq> DFalse)
   \<and> ncount (example_pset plain_ptype []) = 0
   \<and> write (example_writer plain_ptype False) (example_pset plain_ptype []) (Seconds 5) DFalse
        example_fs
      = (Warned (EmptyOnWriting 5), example_writer plain_ptype False,
         example_pset plain_ptype [], example_fs)"
  using write_empty_population
    [of "example_writer plain_ptype False" "Seconds 5" DFalse "example_pset plain_ptype []"
        example_fs]
  by (simp add: example_writer_def example_pset_def ncount_def time_value_def)

subsection \<open>Construction\<close>

lemma splitext_out: "splitext ''out.parquet'' = (''out'', ''.parquet'')"
  by code_simp

text \<open>
  Claim C9. In single-process mode and with an accepted extension, a constructor that
  finds the output directory already present removes the whole tree below it and creates
  the directory anew, empty: every path below the directory, so every chunk an earlier
  writer persisted there, is gone; paths elsewhere are untouched.
\<close>

theorem init_replaces_existing_directory:
  assumes ext: "snd (splitext name) \<in> set [''.parquet'', ''.pqt'', ''.parq'']"
      and single: "case mpi of None \<Rightarrow> True | Some (rank, nprocs) \<Rightarrow> nprocs \<le> 1"
      and dir: "fs name = Some Directory"
  shows "case init name pset od mpi fs of (r, ds, c, fs') \<Rightarrow>
           (\<exists>self. r = Inr self \<and> fname self = name \<and> nfiles self = Some 0)
           \<and> fs' name = Some Directory
           \<and> (\<forall>q. prefix (name @ ''/'') q \<longrightarrow> fs' q = None)
           \<and> (\<forall>q. q \<noteq> name \<and> \<not> prefix (name @ ''/'') q \<longrightarrow> fs' q = fs q)"
proof -
  have m: "(case mpi of None \<Rightarrow> False | Some (rank, nprocs) \<Rightarrow> nprocs > 1) = False"
    using single by (auto split: option.splits)
  have r: "rmtree fs name = Inr (\<lambda>q. if q = name \<or> prefix (name @ ''/'') q then None else fs q)"
    using dir by (simp add: rmtree_def)
  have k: "mkdir (\<lambda>q. if q = name \<or> prefix (name @ ''/'') q then None else fs q) name
         = Inr ((\<lambda>q. if q = name \<or> prefix (name @ ''/'') q then None else fs q)(name \<mapsto> Directory))"
    by (simp add: mkdir_def path_exists_def)
  have n: "\<not> prefix (name @ ''/'') name"
    by (simp add: prefix_def)
  show ?thesis
    using ext dir n
    by (simp add: init_def Let_def m path_exists_def r k)
qed

theorem init_replaces_existing_directory_witness:
  "snd (splitext ''out.parquet'') \<in> set [''.parquet'', ''.pqt'', ''.parq'']
   \<and> (case (None :: (nat \<times> nat) option) of None \<Rightarrow> True | Some (rank, nprocs) \<Rightarrow> nprocs \<le> 1)
   \<and> used_fs ''out.parquet'' = Some Directory
   \<and> used_fs ''out.parquet/p000.parquet'' = Some (ParquetFile old_chunk)
   \<and> (case init ''out.parquet'' (example_pset plain_ptype [1]) False None used_fs of
         (r, ds, c, fs') \<Rightarrow>
            fs' ''out.parquet'' = Some Directory \<and> fs' ''out.parquet/p000.parquet'' = None
            \<and> fs' ''other'' = Some OtherFile)"
  using init_replaces_existing_directory
    [of "''out.parquet''" None used_fs "example_pset plain_ptype [1]" False]
  by (auto simp: splitext_out used_fs_def empty_fs_def)

lemma init_collection:
  "fst (snd (snd (init name pset od mpi fs))) = setallvardata_once_written pset 0"
  by (simp add: init_def Let_def split: sum.splits option.splits prod.splits)

lemma take_indices_all:
  "take_indices xs is = Inr ys \<Longrightarrow> \<forall>x \<in> set xs. P x \<Longrightarrow> \<forall>y \<in> set ys. P y"
proof (induction "is" arbitrary: ys)
  case Nil then show ?case by simp
next
  case (Cons i "is")
  then show ?case
    by (auto simp: norm_index_def split: option.splits sum.splits if_splits)
qed

lemma take_indices_length:
  "take_indices xs is = Inr ys \<Longrightarrow> length ys = length is"
  by (induction "is" arbitrary: ys) (auto split: option.splits sum.splits)

lemma np_where_all: "\<forall>b \<in> set bs. b \<Longrightarrow> np_where bs = [0 ..< length bs]"
  by (auto simp: np_where_def filter_id_conv)

text \<open>
  Whatever else the constructor does (also when it raises), it leaves the collection with
  the once-written flag of every particle at 0 and the particles otherwise in place. Hence,
  for rows selected from the collection as the constructor leaves it, the rows whose
  write-once variables are fetched (line 256) are all the selected rows.
\<close>

lemma init_resets_flags:
  "case init name pset od mpi fs of (r, ds, c, fs') \<Rightarrow>
     map once_written (particles c) = replicate (ncount pset) 0
     \<and> map pid (particles c) = map pid (particles pset)
     \<and> (\<forall>idx flags. getvardata_once_written c idx = Inr flags \<longrightarrow>
            map (\<lambda>k. idx ! k) (once_ids_of flags) = idx)"
proof -
  obtain r ds c fs' where i: "init name pset od mpi fs = (r, ds, c, fs')"
    by (cases "init name pset od mpi fs") auto
  have c: "c = setallvardata_once_written pset 0"
    using init_collection[of name pset od mpi fs] i by simp
  have a: "map once_written (particles c) = replicate (ncount pset) 0"
    by (simp add: c setallvardata_once_written_def ncount_def map_replicate_const o_def)
  have b: "map pid (particles c) = map pid (particles pset)"
    by (simp add: c setallvardata_once_written_def o_def)
  have d: "map (\<lambda>k. idx ! k) (once_ids_of flags) = idx"
    if g: "getvardata_once_written c idx = Inr flags" for idx flags
  proof -
    from g have t: "take_indices (replicate (ncount pset) 0) idx = Inr flags"
      by (simp add: getvardata_once_written_def a)
    have "\<forall>f \<in> set flags. f = 0"
      by (rule take_indices_all[OF t]) simp
    then have "once_ids_of flags = [0 ..< length flags]"
      by (simp add: once_ids_of_def np_where_all)
    moreover have "length flags = length idx" using take_indices_length[OF t] .
    ultimately show ?thesis by (simp add: map_nth)
  qed
  show ?thesis using a b d by (simp add: i)
qed

lemma init_resets_flags_example:
  "map once_written (particles written_pset) = [1, 1]
   \<and> (case init ''out.parquet'' written_pset False None empty_fs of
        (r, ds, c, fs') \<Rightarrow>
          getvardata_once_written c [1, 0] = Inr [0, 0]
          \<and> map (\<lambda>k. [1, 0 :: int] ! k) (once_ids_of [0, 0]) = [1, 0]
          \<and> (case r of Inl e \<Rightarrow> False | Inr self \<Rightarrow>
               fst (write self c (Seconds 0) DFalse fs') =
                 Wrote ''out.parquet/p000.parquet''
                   \<lparr>index = [(1, 0), (2, 0)],
                    columns = [(''lon'', [IntVal 100, IntVal 200]),
                               (''age0'', [IntVal 100, IntVal 200])]\<rparr>))"
proof -
  obtain r ds c fs' where i: "init ''out.parquet'' written_pset False None empty_fs = (r, ds, c, fs')"
    by (cases "init ''out.parquet'' written_pset False None empty_fs") auto
  have e: "getvardata_once_written (fst (snd (snd (init ''out.parquet'' written_pset False None empty_fs)))) [1, 0]
      = Inr [0, 0]"
    by code_simp
  have f: "map once_written (particles written_pset) = [1, 1]"
    by code_simp
  have g: "case init ''out.parquet'' written_pset False None empty_fs of
        (r, ds, c, fs') \<Rightarrow>
          (case r of Inl e \<Rightarrow> False | Inr self \<Rightarrow>
               fst (write self c (Seconds 0) DFalse fs') =
                 Wrote ''out.parquet/p000.parquet''
                   \<lparr>index = [(1, 0), (2, 0)],
                    columns = [(''lon'', [IntVal 100, IntVal 200]),
                               (''age0'', [IntVal 100, IntVal 200])]\<rparr>)"
    by code_simp
  show ?thesis
    using init_resets_flags
      [where name = "''out.parquet''" and pset = written_pset and od = False and mpi = None
         and fs = empty_fs] e f g
    by (simp add: i)
qed

text \<open>
  Claim C10 does not hold of the code. The constructor does reset the once-written flag of
  every particle (lemma \<open>init_resets_flags\<close>), here from \<open>[1, 1, 1]\<close> to \<open>[0, 0, 0]\<close>, and
  the first write under the new writer, which selects particle 1 only, emits its
  \<^verbatim>\<open>age0\<close> value again. The second write selects particles 1, 2 and 3: it is the first
  selected write of particles 2 and 3, their flags are 0 and that of particle 1 is 1, so the
  write-once column has length 2 against an index of length 3. The data frame cannot be
  built: the call raises \<^verbatim>\<open>ValueError\<close>, no chunk \<^verbatim>\<open>p001\<close> is persisted, and the
  write-once values of particles 2 and 3 are not emitted, although their flags are now set.
\<close>

theorem first_selected_write_raises:
  "fst release_init = Inr (example_writer once_ptype False)
   \<and> map once_written (particles release_pset) = [1, 1, 1]
   \<and> map once_written (particles (fst (snd (snd release_init)))) = [0, 0, 0]
   \<and> outcome_of release_first
       = Wrote ''out.parquet/p000.parquet''
           \<lparr>index = [(1, 0)],
            columns = [(''lon'', [IntVal 100]), (''age0'', [IntVal 100])]\<rparr>
   \<and> map once_written (particles (collection_of release_first)) = [1, 0, 0]
   \<and> fst (select_indices (writer_of release_first) (collection_of release_first) 2 DFalse)
       = Inr [0, 1, 2]
   \<and> outcome_of release_second = Raised ValueError
   \<and> filesystem_of release_second ''out.parquet/p001.parquet'' = None
   \<and> map once_written (particles (collection_of release_second)) = [1, 1, 1]"
  by code_simp

subsection \<open>The fill-value table\<close>

lemma Max_sint: "Max (range (sint :: 'a::len word \<Rightarrow> int)) = 2 ^ (LENGTH('a) - 1) - 1"
proof (rule Max_eqI)
  show "finite (range (sint :: 'a word \<Rightarrow> int))" by simp
  show "y \<le> 2 ^ (LENGTH('a) - 1) - 1" if "y \<in> range (sint :: 'a word \<Rightarrow> int)" for y
    using that sint_lt[where 'a='a] by fastforce
  have "sint (word_of_int (2 ^ (LENGTH('a) - 1) - 1) :: 'a word) = 2 ^ (LENGTH('a) - 1) - 1"
    unfolding sint_sbintrunc'
  proof (rule signed_take_bit_int_eq_self)
    have "(0::int) < 2 ^ (LENGTH('a) - 1)" by simp
    then show "- (2 ^ (LENGTH('a) - 1)) \<le> (2 ^ (LENGTH('a) - 1) - 1 :: int)" by linarith
    show "(2 ^ (LENGTH('a) - 1) - 1 :: int) < 2 ^ (LENGTH('a) - 1)" by simp
  qed
  then show "2 ^ (LENGTH('a) - 1) - 1 \<in> range (sint :: 'a word \<Rightarrow> int)"
    by (metis rangeI)
qed

lemma Max_uint: "Max (range (uint :: 'a::len word \<Rightarrow> int)) = 2 ^ LENGTH('a) - 1"
proof (rule Max_eqI)
  show "finite (range (uint :: 'a word \<Rightarrow> int))" by simp
  show "y \<le> 2 ^ LENGTH('a) - 1" if "y \<in> range (uint :: 'a word \<Rightarrow> int)" for y
    using that uint_lt2p[where 'a='a] by fastforce
  have "uint (- 1 :: 'a word) = 2 ^ LENGTH('a) - 1"
    by (simp add: unsigned_minus_1_eq_mask mask_eq_exp_minus_1)
  then show "2 ^ LENGTH('a) - 1 \<in> range (uint :: 'a word \<Rightarrow> int)"
    by (metis rangeI)
qed

lemma Max_bool: "Max (range (of_bool :: bool \<Rightarrow> int)) = 1"
proof -
  have "range (of_bool :: bool \<Rightarrow> int) = {0, 1}" by (auto simp: UNIV_bool)
  then show ?thesis by simp
qed

lemma select_indices_fill:
  "select_indices (self\<lparr>fill_value_map := m\<rparr>) pset time d =
     (case select_indices self pset time d of (r, self1) \<Rightarrow> (r, self1\<lparr>fill_value_map := m\<rparr>))"
  by (cases d) (simp_all add: select_indices_def)

lemma register_pids_fill:
  "register_pids (self\<lparr>fill_value_map := m\<rparr>) pids =
     (case register_pids self pids of (r, self1) \<Rightarrow> (r, self1\<lparr>fill_value_map := m\<rparr>))"
  by (simp add: register_pids_def Let_def split: sum.splits)

lemma write_once_fill: "write_once (self\<lparr>fill_value_map := m\<rparr>) var = write_once self var"
  by (simp add: write_once_def)

lemma build_dfdict_fill:
  "build_dfdict (self\<lparr>fill_value_map := m\<rparr>) pset idx idx1 vs acc
     = build_dfdict self pset idx idx1 vs acc"
  by (induction self pset idx idx1 vs acc rule: build_dfdict.induct)
     (simp_all add: write_once_fill Let_def split: sum.splits)

lemma emit_chunk_fill:
  "emit_chunk (self\<lparr>fill_value_map := m\<rparr>) pset pids ids dfdict fs =
     (case emit_chunk self pset pids ids dfdict fs of
        (out, self', pset', fs') \<Rightarrow> (out, self'\<lparr>fill_value_map := m\<rparr>, pset', fs'))"
  by (simp add: emit_chunk_def Let_def split: sum.splits option.splits)

lemma write_rows_fill:
  "write_rows (self\<lparr>fill_value_map := m\<rparr>) pset idx fs =
     (case write_rows self pset idx fs of
        (out, self', pset', fs') \<Rightarrow> (out, self'\<lparr>fill_value_map := m\<rparr>, pset', fs'))"
  by (simp add: write_rows_def register_pids_fill build_dfdict_fill emit_chunk_fill
           split: sum.splits prod.splits)

lemma write_fill:
  "write (self\<lparr>fill_value_map := m\<rparr>) pset t d fs =
     (case write self pset t d fs of
        (out, self', pset', fs') \<Rightarrow> (out, self'\<lparr>fill_value_map := m\<rparr>, pset', fs'))"
  by (simp add: write_def select_indices_fill Let_def write_rows_fill
           split: sum.splits prod.splits)

lemma init_fill_value_map:
  "fst (init name pset od mpi fs) = Inr self \<Longrightarrow> fill_value_map self = init_fill_value_map"
  by (auto simp: init_def Let_def split: if_splits sum.splits)

lemma map_of_dict_set: "map_of (dict_set d k v) = (map_of d)(k \<mapsto> v)"
  by (induction d) (auto simp: fun_eq_iff)

lemma keys_dict_set: "set (dict_keys (dict_set d k v)) = insert k (set (dict_keys d))"
proof -
  have "dom (map_of (dict_set d k v)) = insert k (dom (map_of d))"
    by (simp add: map_of_dict_set)
  then show ?thesis by (simp add: dict_keys_def dom_map_of_conv_image_fst)
qed

lemma distinct_dict_set: "distinct (dict_keys d) \<Longrightarrow> distinct (dict_keys (dict_set d k v))"
proof (induction d)
  case Nil then show ?case by (simp add: dict_keys_def)
next
  case (Cons a d)
  obtain k' v' where a: "a = (k', v')" by (cases a) auto
  from Cons have d: "distinct (dict_keys d)" "k' \<notin> set (dict_keys d)"
    "distinct (dict_keys (dict_set d k v))"
    by (auto simp: dict_keys_def a)
  show ?case
  proof (cases "k' = k")
    case True
    with Cons.prems show ?thesis by (simp add: a dict_keys_def)
  next
    case False
    have "k' \<notin> set (dict_keys (dict_set d k v))"
      using d(2) False by (simp add: keys_dict_set)
    with d(3) False show ?thesis
      by (simp add: a dict_keys_def)
  qed
qed

lemma fold_collect_distinct:
  "distinct (dict_keys acc) \<Longrightarrow>
   distinct (dict_keys (fold (\<lambda>var d. if to_write var \<noteq> WriteFalse
        then dict_set d (vname var) (vdtype var) else d) vs acc))"
  by (induction vs arbitrary: acc) (simp_all add: distinct_dict_set)

lemma collect_vars_distinct: "distinct (dict_keys (collect_vars_to_write vs))"
  unfolding collect_vars_to_write_def
  by (rule fold_collect_distinct) (simp add: dict_keys_def)

lemma init_table_total: "\<exists>fv. dict_get init_fill_value_map dt = Inr fv"
  by (cases dt) (simp_all add: init_fill_value_map_def dict_get_def)

lemma attrs_loop_untouched:
  "attrs_loop self res vs ats = Inr r \<Longrightarrow> v \<notin> fst ` set vs \<Longrightarrow> map_of r v = map_of ats v"
proof (induction self res vs ats rule: attrs_loop.induct)
  case (1 self reserved ats)
  then show ?case by simp
next
  case (2 self reserved vn dt rest ats)
  show ?case
  proof (cases "vn \<in> set reserved")
    case True
    with 2 show ?thesis by simp
  next
    case False
    with "2.prems"(1) obtain fv where fv: "dict_get (fill_value_map self) dt = Inr fv"
      by (auto split: sum.splits)
    from "2.IH"(1)[OF False fv] "2.prems" False fv
    show ?thesis by (auto simp: map_of_dict_set)
  qed
qed

lemma attrs_loop_entry:
  "distinct (map fst vs) \<Longrightarrow> attrs_loop self res vs ats = Inr r \<Longrightarrow> (v, dt) \<in> set vs
     \<Longrightarrow> v \<notin> set res
     \<Longrightarrow> \<exists>fv. dict_get (fill_value_map self) dt = Inr fv
            \<and> map_of r v = Some [(''_FillValue'', FillValue fv), (''long_name'', Text []),
                                  (''standard_name'', Text v), (''units'', Text ''unknown'')]"
proof (induction self res vs ats rule: attrs_loop.induct)
  case (1 self reserved ats)
  then show ?case by simp
next
  case (2 self reserved vn dt' rest ats)
  show ?case
  proof (cases "(v, dt) = (vn, dt')")
    case True
    with "2.prems" obtain fv where fv: "dict_get (fill_value_map self) dt = Inr fv"
      by (auto split: sum.splits)
    let ?e = "[(''_FillValue'', FillValue fv), (''long_name'', Text []),
               (''standard_name'', Text v), (''units'', Text ''unknown'')]"
    from "2.prems" True fv have l: "attrs_loop self reserved rest (dict_set ats v ?e) = Inr r"
      by simp
    have "v \<notin> fst ` set rest" using "2.prems"(1) True by auto
    from attrs_loop_untouched[OF l this] fv show ?thesis
      by (simp add: map_of_dict_set)
  next
    case False
    with "2.prems" have m: "(v, dt) \<in> set rest" and d: "distinct (map fst rest)" by auto
    show ?thesis
    proof (cases "vn \<in> set reserved")
      case True
      from "2.IH"(2)[OF _ d _ m "2.prems"(4)] True "2.prems"(2) show ?thesis by simp
    next
      case nr: False
      with "2.prems"(2) obtain fv' where fv': "dict_get (fill_value_map self) dt' = Inr fv'"
        by (auto split: sum.splits)
      from "2.IH"(1)[OF nr fv' d _ m "2.prems"(4)] "2.prems"(2) nr fv'
      show ?thesis by simp
    qed
  qed
qed

lemma attrs_loop_total:
  "\<forall>dt. \<exists>fv. dict_get (fill_value_map self) dt = Inr fv \<Longrightarrow> \<exists>r. attrs_loop self res vs ats = Inr r"
proof (induction self res vs ats rule: attrs_loop.induct)
  case (1 self reserved ats)
  then show ?case by simp
next
  case (2 self reserved vn dt rest ats)
  from "2.prems" obtain fv where fv: "dict_get (fill_value_map self) dt = Inr fv" by blast
  show ?case
  proof (cases "vn \<in> set reserved")
    case True
    with "2.IH"(2)[OF _ "2.prems"] show ?thesis by simp
  next
    case False
    with "2.IH"(1)[OF False fv "2.prems"] fv show ?thesis by simp
  qed
qed

lemma init_vars_to_write:
  "fst (init name pset od mpi fs) = Inr self \<Longrightarrow>
     vars_to_write self = collect_vars_to_write (ptype pset) \<and> fill_value_map self = init_fill_value_map"
  by (auto simp: init_def Let_def split: if_splits sum.splits)

lemma attribute_dict_fill_values:
  assumes "fst (init name pset od mpi fs) = Inr self"
  shows "\<exists>ats. create_variables_attribute_dict self reserved calendar origin = Inr ats
          \<and> (\<forall>(v, dt) \<in> set (vars_to_write self). v \<notin> set reserved \<longrightarrow>
                (\<exists>inner fv. map_of ats v = Some inner
                   \<and> dict_get init_fill_value_map dt = Inr fv
                   \<and> map_of inner ''_FillValue'' = Some (FillValue fv)))"
proof -
  note i = init_vars_to_write[OF assms]
  have tot: "\<forall>dt. \<exists>fv. dict_get (fill_value_map self) dt = Inr fv"
    using init_table_total i by simp
  then obtain fv64 where f64: "dict_get (fill_value_map self) Int64 = Inr fv64" by blast
  have dist: "distinct (map fst (vars_to_write self))"
    using collect_vars_distinct[of "ptype pset"] i by (simp add: dict_keys_def)
  obtain ats0 where c: "create_variables_attribute_dict self reserved calendar origin
      = attrs_loop self reserved (vars_to_write self) ats0"
    by (simp add: create_variables_attribute_dict_def f64 Let_def)
  from attrs_loop_total[OF tot, of reserved "vars_to_write self" ats0]
  obtain ats where a: "attrs_loop self reserved (vars_to_write self) ats0 = Inr ats" by blast
  have "\<exists>inner fv. map_of ats v = Some inner
                   \<and> dict_get init_fill_value_map dt = Inr fv
                   \<and> map_of inner ''_FillValue'' = Some (FillValue fv)"
    if "(v, dt) \<in> set (vars_to_write self)" "v \<notin> set reserved" for v dt
    using attrs_loop_entry[OF dist a that] i by auto
  with c a show ?thesis by auto
qed

text \<open>
  Claim C6, as stated, fails for the boolean type: its fill value is 127, the largest
  value of the signed 8-bit type, whereas the largest value a boolean represents is 1.
\<close>

theorem fill_value_bool_counterexample:
  "dict_get init_fill_value_map Bool \<noteq> Inr (IntFill (Max (representable Bool)))"
  by (simp add: init_fill_value_map_def dict_get_def Max_bool)

text \<open>
  Claim C6, amended. The table of a constructed writer is the fixed table, and the
  attribute dictionary built from it gives every output variable that is not reserved the
  \<^verbatim>\<open>_FillValue\<close> the table holds for its element type. The table has an entry for each of
  the twelve element types: not-a-number for the three floating types; for each of the eight integer
  types the largest value that type represents; for the boolean type the largest value of
  the signed 8-bit type, the type it is stored as (\<^verbatim>\<open>fmt_map\<close> gives both the format
  \<^verbatim>\<open>i1\<close>). The table has no influence on a write: with any other table in its place,
  \<^verbatim>\<open>write\<close> gives the same outcome (so the same chunk), the same collection, the same
  directory and, the table apart, the same writer.
\<close>

theorem fill_value_table:
  "(case fst (init name pset0 od mpi fs0) of Inl e \<Rightarrow> True
      | Inr self0 \<Rightarrow>
          fill_value_map self0 = init_fill_value_map
          \<and> (\<exists>ats. create_variables_attribute_dict self0 reserved calendar origin = Inr ats
                \<and> (\<forall>(v, dt) \<in> set (vars_to_write self0). v \<notin> set reserved \<longrightarrow>
                      (\<exists>inner fv. map_of ats v = Some inner
                         \<and> dict_get init_fill_value_map dt = Inr fv
                         \<and> map_of inner ''_FillValue'' = Some (FillValue fv)))))
   \<and> dict_get init_fill_value_map Float16 = Inr NaNFill
   \<and> dict_get init_fill_value_map Float32 = Inr NaNFill
   \<and> dict_get init_fill_value_map Float64 = Inr NaNFill
   \<and> dict_get init_fill_value_map Int8 = Inr (IntFill (Max (representable Int8)))
   \<and> dict_get init_fill_value_map Int16 = Inr (IntFill (Max (representable Int16)))
   \<and> dict_get init_fill_value_map Int32 = Inr (IntFill (Max (representable Int32)))
   \<and> dict_get init_fill_value_map Int64 = Inr (IntFill (Max (representable Int64)))
   \<and> dict_get init_fill_value_map UInt8 = Inr (IntFill (Max (representable UInt8)))
   \<and> dict_get init_fill_value_map UInt16 = Inr (IntFill (Max (representable UInt16)))
   \<and> dict_get init_fill_value_map UInt32 = Inr (IntFill (Max (representable UInt32)))
   \<and> dict_get init_fill_value_map UInt64 = Inr (IntFill (Max (representable UInt64)))
   \<and> dict_get init_fill_value_map Bool = Inr (IntFill (Max (representable Int8)))
   \<and> dict_get init_fmt_map Bool = dict_get init_fmt_map Int8
   \<and> write (self\<lparr>fill_value_map := m\<rparr>) pset t d fs =
       (case write self pset t d fs of
          (out, self', pset', fs') \<Rightarrow> (out, self'\<lparr>fill_value_map := m\<rparr>, pset', fs'))"
proof -
  have i: "case fst (init name pset0 od mpi fs0) of Inl e \<Rightarrow> True
      | Inr self0 \<Rightarrow>
          fill_value_map self0 = init_fill_value_map
          \<and> (\<exists>ats. create_variables_attribute_dict self0 reserved calendar origin = Inr ats
                \<and> (\<forall>(v, dt) \<in> set (vars_to_write self0). v \<notin> set reserved \<longrightarrow>
                      (\<exists>inner fv. map_of ats v = Some inner
                         \<and> dict_get init_fill_value_map dt = Inr fv
                         \<and> map_of inner ''_FillValue'' = Some (FillValue fv))))"
  proof (cases "fst (init name pset0 od mpi fs0)")
    case (Inl e)
    then show ?thesis by simp
  next
    case (Inr self0)
    from init_fill_value_map[OF Inr]
      attribute_dict_fill_values[OF Inr, of reserved calendar origin] Inr
    show ?thesis by simp
  qed
  have t: "dict_get init_fill_value_map Float16 = Inr NaNFill
   \<and> dict_get init_fill_value_map Float32 = Inr NaNFill
   \<and> dict_get init_fill_value_map Float64 = Inr NaNFill
   \<and> dict_get init_fill_value_map Int8 = Inr (IntFill (Max (representable Int8)))
   \<and> dict_get init_fill_value_map Int16 = Inr (IntFill (Max (representable Int16)))
   \<and> dict_get init_fill_value_map Int32 = Inr (IntFill (Max (representable Int32)))
   \<and> dict_get init_fill_value_map Int64 = Inr (IntFill (Max (representable Int64)))
   \<and> dict_get init_fill_value_map UInt8 = Inr (IntFill (Max (representable UInt8)))
   \<and> dict_get init_fill_value_map UInt16 = Inr (IntFill (Max (representable UInt16)))
   \<and> dict_get init_fill_value_map UInt32 = Inr (IntFill (Max (representable UInt32)))
   \<and> dict_get init_fill_value_map UInt64 = Inr (IntFill (Max (representable UInt64)))
   \<and> dict_get init_fill_value_map Bool = Inr (IntFill (Max (representable Int8)))
   \<and> dict_get init_fmt_map Bool = dict_get init_fmt_map Int8"
    by (simp add: init_fill_value_map_def init_fmt_map_def dict_get_def Max_sint Max_uint)
  show ?thesis using i t write_fill by simp
qed

theorem fill_value_table_witness:
  "fst (init ''out.parquet'' (example_pset plain_ptype [1, 2]) False None empty_fs)
     = Inr (example_writer plain_ptype False)
   \<and> (''lon'', Float32) \<in> set (vars_to_write (example_writer plain_ptype False))
   \<and> ''lon'' \<notin> set [''trajectory'', ''time'']
   \<and> (case create_variables_attribute_dict (example_writer plain_ptype False)
              [''trajectory'', ''time''] None [] of
         Inl e \<Rightarrow> False
       | Inr ats \<Rightarrow> (case map_of ats ''lon'' of None \<Rightarrow> False
                      | Some inner \<Rightarrow> map_of inner ''_FillValue'' = Some (FillValue NaNFill)))
   \<and> dict_get init_fill_value_map Int64 = Inr (IntFill 9223372036854775807)
   \<and> dict_get init_fill_value_map Bool = Inr (IntFill 127)
   \<and> fst (write ((example_writer plain_ptype False)\<lparr>fill_value_map := []\<rparr>)
            (example_pset plain_ptype [1, 2]) (Seconds 0) DFalse example_fs)
     = fst (write (example_writer plain_ptype False)
            (example_pset plain_ptype [1, 2]) (Seconds 0) DFalse example_fs)"
proof -
  have h: "fst (init ''out.parquet'' (example_pset plain_ptype [1, 2]) False None empty_fs)
     = Inr (example_writer plain_ptype False)"
    by code_simp
  have v: "(''lon'', Float32) \<in> set (vars_to_write (example_writer plain_ptype False))"
    by code_simp
  have a: "case create_variables_attribute_dict (example_writer plain_ptype False)
              [''trajectory'', ''time''] None [] of
         Inl e \<Rightarrow> False
       | Inr ats \<Rightarrow> (case map_of ats ''lon'' of None \<Rightarrow> False
                      | Some inner \<Rightarrow> map_of inner ''_FillValue'' = Some (FillValue NaNFill))"
    by code_simp
  note t = fill_value_table
    [where name = "''out.parquet''" and ?pset0.0 = "example_pset plain_ptype [1, 2]"
       and od = False and mpi = None and ?fs0.0 = empty_fs
       and reserved = "[''trajectory'', ''time'']" and calendar = None and origin = "[]"
       and self = "example_writer plain_ptype False" and m = "[]"
       and pset = "example_pset plain_ptype [1, 2]" and t = "Seconds 0" and d = DFalse
       and fs = example_fs]
  have w: "fst (write ((example_writer plain_ptype False)\<lparr>fill_value_map := []\<rparr>)
            (example_pset plain_ptype [1, 2]) (Seconds 0) DFalse example_fs)
     = fst (write (example_writer plain_ptype False)
            (example_pset plain_ptype [1, 2]) (Seconds 0) DFalse example_fs)"
    using t by (simp split: prod.splits)
  have f: "dict_get init_fill_value_map Int64 = Inr (IntFill 9223372036854775807)
     \<and> dict_get init_fill_value_map Bool = Inr (IntFill 127)"
    using t by (simp add: Max_sint)
  show ?thesis using h v a w f by simp
qed

subsection \<open>The gate of \<^verbatim>\<open>write\<close>\<close>

lemma register_pids_frame:
  "register_pids self pids = (r, self1) \<Longrightarrow>
     lasttime_written self1 = lasttime_written self \<and> write_ondelete self1 = write_ondelete self
     \<and> nfiles self1 = nfiles self \<and> fname self1 = fname self
     \<and> obs_written self1 = obs_written self
     \<and> vars_to_write self1 = vars_to_write self
     \<and> particleset_ptype self1 = particleset_ptype self"
  by (auto simp: register_pids_def Let_def split: sum.splits)

lemma emit_chunk_frame:
  "emit_chunk self pset pids ids dfdict fs = (out, self1, pset1, fs1) \<Longrightarrow>
     lasttime_written self1 = lasttime_written self \<and> write_ondelete self1 = write_ondelete self
     \<and> fname self1 = fname self
     \<and> pids_written self1 = pids_written self \<and> maxids self1 = maxids self
     \<and> vars_to_write self1 = vars_to_write self
     \<and> particleset_ptype self1 = particleset_ptype self \<and> pset1 = pset"
  by (auto simp: emit_chunk_def Let_def split: sum.splits option.splits)

lemma write_rows_frame:
  assumes "write_rows self pset idx fs = (out, self1, pset1, fs1)"
  shows "lasttime_written self1 = lasttime_written self \<and> write_ondelete self1 = write_ondelete self
     \<and> fname self1 = fname self
     \<and> vars_to_write self1 = vars_to_write self
     \<and> particleset_ptype self1 = particleset_ptype self"
  using assms
  by (auto simp: write_rows_def split: sum.splits prod.splits
      dest!: register_pids_frame emit_chunk_frame)

lemma write_time_equal:
  "lasttime_written self = Some (time_value t) \<Longrightarrow> write self pset t d fs = (Skipped, self, pset, fs)"
  by (simp add: write_def)

lemma write_periodic_records:
  assumes "write_ondelete self = False" and "ncount pset \<noteq> 0"
      and "write self pset t DFalse fs = (out1, self1, pset1, fs1)"
  shows "lasttime_written self1 = Some (time_value t)"
proof (cases "lasttime_written self = Some (time_value t)")
  case True
  with assms show ?thesis by (simp add: write_def)
next
  case False
  with assms show ?thesis
    by (auto simp: write_def select_indices_def Let_def split: if_splits dest!: write_rows_frame)
qed

lemma write_Wrote_records:
  assumes "write self pset t DFalse fs = (Wrote f df, self1, pset1, fs1)"
  shows "lasttime_written self1 = Some (time_value t)"
  using assms
  by (auto simp: write_def select_indices_def Let_def split: if_splits dest!: write_rows_frame)

lemma first_write_eval:
  "outcome_of first_write =
     Wrote ''out.parquet/p000.parquet''
       \<lparr>index = [(1, 0), (2, 0)], columns = [(''lon'', [IntVal 100, IntVal 200])]\<rparr>"
  by code_simp

text \<open>
  Claim C5, as stated, fails when the population is empty at the first call: that call
  returns after the warning, before the time is recorded.
\<close>

theorem periodic_empty_counterexample:
  "lasttime_written (writer_of (write (example_writer plain_ptype False)
       (example_pset plain_ptype []) (Seconds 0) DFalse example_fs))
     \<noteq> Some (time_value (Seconds 0))"
  by code_simp

text \<open>
  Claim C5, amended. In periodic mode, two calls of \<^verbatim>\<open>write\<close> with the same time and no
  deletion subset (the collection and the directory of the second call being arbitrary)
  emit at most one chunk. If the population is not empty at the first call, the writer
  holds the time as its last periodic write time after that call, and the second call is
  skipped: writer, collection and directory are returned as they were given. If the
  population is empty at the first call, that call emits nothing and changes nothing.
\<close>

theorem periodic_write_twice:
  assumes "write_ondelete self = False"
      and "write self pset t DFalse fs = (out1, self1, pset1, fs1)"
      and "write self1 pset2 t DFalse fs2 = (out2, self2, pset2', fs2')"
  shows "\<not> (is_Wrote out1 \<and> is_Wrote out2)
       \<and> (ncount pset \<noteq> 0 \<longrightarrow>
            lasttime_written self1 = Some (time_value t)
            \<and> out2 = Skipped \<and> self2 = self1 \<and> pset2' = pset2 \<and> fs2' = fs2)
       \<and> (ncount pset = 0 \<longrightarrow> \<not> is_Wrote out1 \<and> self1 = self \<and> pset1 = pset \<and> fs1 = fs)"
proof -
  have one: "\<not> (is_Wrote out1 \<and> is_Wrote out2)"
  proof
    assume w: "is_Wrote out1 \<and> is_Wrote out2"
    then obtain f df where "out1 = Wrote f df" by (cases out1) auto
    with assms(2) have "lasttime_written self1 = Some (time_value t)"
      using write_Wrote_records by blast
    then have "out2 = Skipped" using assms(3) by (simp add: write_time_equal)
    with w show False by simp
  qed
  have two: "lasttime_written self1 = Some (time_value t)
            \<and> out2 = Skipped \<and> self2 = self1 \<and> pset2' = pset2 \<and> fs2' = fs2"
    if n: "ncount pset \<noteq> 0"
  proof -
    have l: "lasttime_written self1 = Some (time_value t)"
      using write_periodic_records[OF assms(1) n assms(2)] .
    then show ?thesis using assms(3) by (simp add: write_time_equal)
  qed
  have three: "\<not> is_Wrote out1 \<and> self1 = self \<and> pset1 = pset \<and> fs1 = fs"
    if "ncount pset = 0"
    using that assms(2) by (auto simp: write_def Let_def split: if_splits)
  show ?thesis using one two three by blast
qed


theorem periodic_write_twice_witness:
  "write_ondelete (example_writer plain_ptype False) = False
   \<and> ncount (example_pset plain_ptype [1, 2]) \<noteq> 0
   \<and> is_Wrote (outcome_of first_write)
   \<and> lasttime_written (writer_of first_write) = Some 0
   \<and> write (writer_of first_write) (collection_of first_write) (Seconds 0) DFalse
        (filesystem_of first_write)
      = (Skipped, writer_of first_write, collection_of first_write, filesystem_of first_write)"
proof -
  let ?W = "example_writer plain_ptype False" and ?P = "example_pset plain_ptype [1, 2]"
  have h1: "write_ondelete ?W = False" by (simp add: example_writer_def)
  have h2: "write ?W ?P (Seconds 0) DFalse example_fs
      = (outcome_of first_write, writer_of first_write, collection_of first_write,
         filesystem_of first_write)"
    by (simp add: first_write_def outcome_of_def writer_of_def collection_of_def filesystem_of_def)
  obtain out2 self2 pset2 fs2 where h3:
    "write (writer_of first_write) (collection_of first_write) (Seconds 0) DFalse
        (filesystem_of first_write) = (out2, self2, pset2, fs2)"
    by (metis prod_cases4)
  have n: "ncount ?P \<noteq> 0" by (simp add: ncount_def example_pset_def)
  have w: "is_Wrote (outcome_of first_write)" by (simp add: first_write_eval)
  from periodic_write_twice[OF h1 h2 h3] n
  have "lasttime_written (writer_of first_write) = Some (time_value (Seconds 0))
      \<and> out2 = Skipped \<and> self2 = writer_of first_write \<and> pset2 = collection_of first_write
      \<and> fs2 = filesystem_of first_write"
    by simp
  with h1 h3 n w show ?thesis by (simp add: time_value_def)
qed

subsection \<open>The identity registry\<close>

lemma dict_set_append: "k \<notin> set (dict_keys d) \<Longrightarrow> dict_set d k v = d @ [(k, v)]"
  by (induction d) (auto simp: dict_keys_def)

lemma fold_dict_set_append:
  "distinct ks \<Longrightarrow> set ks \<inter> set (dict_keys d) = {} \<Longrightarrow>
   fold (\<lambda>(i, pid) d. dict_set d pid (m + i)) (enumerate n ks) d
     = d @ zip ks [m + n ..< m + n + length ks]"
proof (induction ks arbitrary: d n)
  case Nil
  then show ?case by simp
next
  case (Cons k ks)
  have k: "k \<notin> set (dict_keys d)" using Cons.prems by auto
  have d: "set ks \<inter> set (dict_keys (d @ [(k, m + n)])) = {}"
    using Cons.prems by (auto simp: dict_keys_def)
  have "fold (\<lambda>(i, pid) d. dict_set d pid (m + i)) (enumerate n (k # ks)) d
      = fold (\<lambda>(i, pid) d. dict_set d pid (m + i)) (enumerate (Suc n) ks) (d @ [(k, m + n)])"
    by (simp add: dict_set_append[OF k])
  also have "\<dots> = (d @ [(k, m + n)]) @ zip ks [m + Suc n ..< m + Suc n + length ks]"
    using Cons.IH[OF _ d] Cons.prems by simp
  also have "\<dots> = d @ zip (k # ks) [m + n ..< m + n + length (k # ks)]"
    by (simp add: upt_conv_Cons del: upt_Suc)
  finally show ?case .
qed

lemma to_add_props:
  "distinct (to_add pw pids)" "sorted (to_add pw pids)"
  "set (to_add pw pids) = set pids - set (dict_keys pw)"
  by (auto simp: to_add_def)

lemma to_add_strict: "sorted_wrt (<) (to_add pw pids)"
  using to_add_props(1,2)[of pw pids] by (simp add: strict_sorted_iff)

lemma lookup_all_ok:
  "set pids \<subseteq> set (dict_keys pw) \<Longrightarrow> lookup_all pw pids = Inr (map (\<lambda>p. the (map_of pw p)) pids)"
proof (induction pids)
  case Nil then show ?case by simp
next
  case (Cons p pids)
  then have "p \<in> fst ` set pw" by (simp add: dict_keys_def)
  then obtain i where "map_of pw p = Some i"
    by (metis domD dom_map_of_conv_image_fst)
  with Cons show ?case by (simp add: dict_get_def)
qed

lemma keys_registered:
  "set (dict_keys (registered pw m pids)) = set (dict_keys pw) \<union> set pids"
  using to_add_props(3)[of pw pids]
  by (auto simp: registered_def dict_keys_def)

lemma register_pids_eq:
  "register_pids self pids =
     (Inr (map (\<lambda>p. the (map_of (registered (pids_written self) (maxids self) pids) p)) pids),
      self\<lparr>pids_written := registered (pids_written self) (maxids self) pids,
           maxids := length (registered (pids_written self) (maxids self) pids)\<rparr>)"
proof -
  have f: "fold (\<lambda>(i, pid) d. dict_set d pid (maxids self + i))
              (enumerate 0 (to_add (pids_written self) pids)) (pids_written self)
         = registered (pids_written self) (maxids self) pids"
    using fold_dict_set_append[of "to_add (pids_written self) pids" "pids_written self" "maxids self" 0]
      to_add_props[of "pids_written self" pids]
    by (auto simp: registered_def)
  have s: "set pids \<subseteq> set (dict_keys (registered (pids_written self) (maxids self) pids))"
    by (simp add: keys_registered)
  show ?thesis
    unfolding register_pids_def f Let_def
    by (simp add: lookup_all_ok[OF s])
qed

lemma registry_inv_registered:
  assumes "registry_inv self"
  shows "registry_inv (self\<lparr>pids_written := registered (pids_written self) (maxids self) pids,
           maxids := length (registered (pids_written self) (maxids self) pids)\<rparr>)"
proof -
  let ?pw = "pids_written self" and ?ta = "to_add (pids_written self) pids"
  have m: "maxids self = length ?pw" using assms by (simp add: registry_inv_def)
  have d: "distinct (dict_keys ?pw)" using assms by (simp add: registry_inv_def)
  have v: "map snd ?pw = [0 ..< length ?pw]" using assms by (simp add: registry_inv_def)
  have d': "distinct (dict_keys (registered ?pw (maxids self) pids))"
    using d to_add_props[of ?pw pids]
    by (auto simp: registered_def dict_keys_def)
  have "map snd (registered ?pw (maxids self) pids) = [0 ..< length ?pw] @ [length ?pw ..< length ?pw + length ?ta]"
    by (simp add: registered_def v m)
  also have "\<dots> = [0 ..< length ?pw + length ?ta]"
    by (metis le_add1 upt_add_eq_append zero_le)
  finally have v': "map snd (registered ?pw (maxids self) pids)
      = [0 ..< length (registered ?pw (maxids self) pids)]"
    by (simp add: registered_def)
  show ?thesis using d' v' by (simp add: registry_inv_def)
qed


lemma select_indices_frame:
  "select_indices self pset time d = (r, self1) \<Longrightarrow>
     pids_written self1 = pids_written self \<and> maxids self1 = maxids self
     \<and> obs_written self1 = obs_written self \<and> nfiles self1 = nfiles self
     \<and> write_ondelete self1 = write_ondelete self \<and> fname self1 = fname self
     \<and> vars_to_write self1 = vars_to_write self
     \<and> particleset_ptype self1 = particleset_ptype self"
  by (cases d) (auto simp: select_indices_def split: if_splits)

lemma write_rows_registry:
  assumes "write_rows self pset idx fs = (out, self1, pset1, fs1)"
  shows "(pids_written self1 = pids_written self \<and> maxids self1 = maxids self)
       \<or> (\<exists>pids. pids_written self1 = registered (pids_written self) (maxids self) pids
                 \<and> maxids self1 = length (registered (pids_written self) (maxids self) pids))"
  using assms
  by (auto simp: write_rows_def register_pids_eq split: sum.splits prod.splits
      dest!: emit_chunk_frame)

lemma write_registry:
  assumes "write self pset t d fs = (out, self1, pset1, fs1)"
  shows "(pids_written self1 = pids_written self \<and> maxids self1 = maxids self)
       \<or> (\<exists>pids. pids_written self1 = registered (pids_written self) (maxids self) pids
                 \<and> maxids self1 = length (registered (pids_written self) (maxids self) pids))"
proof -
  consider (skip) "self1 = self"
    | (rows) time idx self0 where "select_indices self pset time d = (Inr idx, self0)"
        "write_rows self0 pset idx fs = (out, self1, pset1, fs1)"
    | (other) r self0 where "select_indices self pset (time_value t) d = (r, self0)" "self1 = self0"
    using assms by (auto simp: write_def Let_def split: if_splits sum.splits prod.splits)
  then show ?thesis
  proof cases
    case skip then show ?thesis by simp
  next
    case rows
    from select_indices_frame[OF rows(1)] write_rows_registry[OF rows(2)]
    show ?thesis by simp
  next
    case other
    from select_indices_frame[OF other(1)] other(2) show ?thesis by simp
  qed
qed

lemma write_registry_inv:
  assumes "registry_inv self" "write self pset t d fs = (out, self1, pset1, fs1)"
  shows "registry_inv self1"
proof -
  from write_registry[OF assms(2)] show ?thesis
  proof
    assume "pids_written self1 = pids_written self \<and> maxids self1 = maxids self"
    with assms(1) show ?thesis by (simp add: registry_inv_def)
  next
    assume "\<exists>pids. pids_written self1 = registered (pids_written self) (maxids self) pids
                 \<and> maxids self1 = length (registered (pids_written self) (maxids self) pids)"
    then obtain pids where p: "pids_written self1 = registered (pids_written self) (maxids self) pids"
        "maxids self1 = length (registered (pids_written self) (maxids self) pids)" by blast
    from registry_inv_registered[OF assms(1), of pids] p show ?thesis
      by (simp add: registry_inv_def)
  qed
qed

lemma write_registry_prefix:
  assumes "write self pset t d fs = (out, self1, pset1, fs1)"
  shows "prefix (pids_written self) (pids_written self1)"
  using write_registry[OF assms] by (auto simp: registered_def)

lemma writes_registry_inv:
  "registry_inv self \<Longrightarrow> writes self fs calls = (self', fs', chunks) \<Longrightarrow> registry_inv self'"
proof (induction calls arbitrary: self fs chunks self' fs')
  case Nil then show ?case by simp
next
  case (Cons c calls)
  obtain pset t d where c: "c = (pset, t, d)" by (cases c) auto
  obtain out self1 pset1 fs1 where w: "write self pset t d fs = (out, self1, pset1, fs1)"
    by (metis prod_cases4)
  obtain self2 fs2 chunks2 where r: "writes self1 fs1 calls = (self2, fs2, chunks2)"
    by (metis prod_cases3)
  from Cons.prems(2) c w r have "self' = self2" by simp
  moreover have "registry_inv self2"
    using Cons.IH[OF write_registry_inv[OF Cons.prems(1) w] r] .
  ultimately show ?case by simp
qed

lemma writes_registry_prefix:
  "writes self fs calls = (self', fs', chunks) \<Longrightarrow> prefix (pids_written self) (pids_written self')"
proof (induction calls arbitrary: self fs chunks self' fs')
  case Nil then show ?case by simp
next
  case (Cons c calls)
  obtain pset t d where c: "c = (pset, t, d)" by (cases c) auto
  obtain out self1 pset1 fs1 where w: "write self pset t d fs = (out, self1, pset1, fs1)"
    by (metis prod_cases4)
  obtain self2 fs2 chunks2 where r: "writes self1 fs1 calls = (self2, fs2, chunks2)"
    by (metis prod_cases3)
  from Cons.prems c w r have "self' = self2" by simp
  with Cons.IH[OF r] write_registry_prefix[OF w] show ?case
    by (metis prefix_order.order_trans)
qed

lemma init_registry_inv:
  "fst (init name pset od mpi fs) = Inr self \<Longrightarrow> registry_inv self \<and> obs_written self = []"
  by (auto simp: init_def Let_def registry_inv_def dict_keys_def split: if_splits sum.splits)

lemma map_of_prefix:
  "prefix xs ys \<Longrightarrow> map_of xs p = Some i \<Longrightarrow> map_of ys p = Some i"
  by (auto simp: prefix_def)


text \<open>
  Claim C4. Let \<open>self\<close> be the writer after any sequence of writes on a freshly
  constructed writer. Its registry is a bijection between the registered identities and
  \<open>0, \<dots>, maxids - 1\<close>. A batch of identities \<open>pids\<close> (lines 248 to 252) appends the
  identities not yet registered, each once, in ascending order, with the consecutive indices
  \<open>maxids, maxids + 1, \<dots>\<close>, and \<open>maxids\<close> grows by their number. An identity registered
  in \<open>self\<close> has the same index after the batch and after any further sequence of writes.
\<close>

theorem local_index_assignment:
  assumes "fst (init name pset0 od mpi fs0) = Inr self0"
      and "writes self0 fs calls = (self, fs', chunks)"
      and "writes self fs' further = (later, fs'', chunks')"
      and "register_pids self pids = (r, self1)"
  shows "maxids self = length (pids_written self)
       \<and> distinct (dict_keys (pids_written self))
       \<and> map snd (pids_written self) = [0 ..< maxids self]
       \<and> pids_written self1 = pids_written self @
            zip (to_add (pids_written self) pids)
                [maxids self ..< maxids self + length (to_add (pids_written self) pids)]
       \<and> sorted_wrt (<) (to_add (pids_written self) pids)
       \<and> set (to_add (pids_written self) pids) = set pids - set (dict_keys (pids_written self))
       \<and> maxids self1 = maxids self + length (to_add (pids_written self) pids)
       \<and> r = Inr (map (\<lambda>p. the (map_of (pids_written self1) p)) pids)
       \<and> (\<forall>p i. map_of (pids_written self) p = Some i \<longrightarrow>
             map_of (pids_written self1) p = Some i \<and> map_of (pids_written later) p = Some i)"
proof -
  have inv: "registry_inv self"
    using writes_registry_inv[OF _ assms(2)] init_registry_inv[OF assms(1)] by simp
  have a: "maxids self = length (pids_written self)
       \<and> distinct (dict_keys (pids_written self))
       \<and> map snd (pids_written self) = [0 ..< maxids self]"
    using inv by (simp add: registry_inv_def)
  have e: "r = Inr (map (\<lambda>p. the (map_of (registered (pids_written self) (maxids self) pids) p)) pids)"
      "self1 = self\<lparr>pids_written := registered (pids_written self) (maxids self) pids,
           maxids := length (registered (pids_written self) (maxids self) pids)\<rparr>"
    using assms(4) by (simp_all add: register_pids_eq)
  have b: "pids_written self1 = pids_written self @
            zip (to_add (pids_written self) pids)
                [maxids self ..< maxids self + length (to_add (pids_written self) pids)]"
    by (simp add: e(2) registered_def)
  have c: "maxids self1 = maxids self + length (to_add (pids_written self) pids)"
    using a by (simp add: e(2) registered_def)
  have d: "r = Inr (map (\<lambda>p. the (map_of (pids_written self1) p)) pids)"
    by (simp add: e)
  have p1: "prefix (pids_written self) (pids_written self1)" by (simp add: b)
  have p2: "prefix (pids_written self) (pids_written later)"
    using writes_registry_prefix[OF assms(3)] .
  have k: "map_of (pids_written self1) p = Some i \<and> map_of (pids_written later) p = Some i"
    if "map_of (pids_written self) p = Some i" for p i
    using that map_of_prefix[OF p1] map_of_prefix[OF p2] by blast
  show ?thesis
    using a b c d k to_add_strict[of "pids_written self" pids] to_add_props(3)[of "pids_written self" pids]
    by blast
qed

theorem local_index_assignment_witness:
  "fst (init ''out.parquet'' (example_pset plain_ptype [10, 20, 30]) False None empty_fs)
     = Inr (example_writer plain_ptype False)
   \<and> pids_written (fst batch1) = [(10, 0), (20, 1), (30, 2)]
   \<and> fst (register_pids (fst batch1) [40, 20]) = Inr [3, 1]
   \<and> pids_written (snd (register_pids (fst batch1) [40, 20])) = [(10, 0), (20, 1), (30, 2), (40, 3)]
   \<and> map_of (pids_written (fst batch1)) 20 = Some 1
   \<and> map_of (pids_written (fst batch2)) 20 = Some 1
   \<and> map_of (pids_written (fst batch2)) 40 = Some 3"
proof -
  have h1: "fst (init ''out.parquet'' (example_pset plain_ptype [10, 20, 30]) False None empty_fs)
     = Inr (example_writer plain_ptype False)"
    by code_simp
  have h2: "writes (example_writer plain_ptype False) example_fs
       [(example_pset plain_ptype [10, 20, 30], Seconds 0, DFalse)]
     = (fst batch1, fst (snd batch1), snd (snd batch1))"
    by (simp add: batch1_def)
  have h3: "writes (fst batch1) (fst (snd batch1))
       [(example_pset plain_ptype [40, 20], Seconds 1, DFalse)]
     = (fst batch2, fst (snd batch2), snd (snd batch2))"
    by (simp add: batch2_def)
  have h4: "register_pids (fst batch1) [40, 20]
     = (fst (register_pids (fst batch1) [40, 20]), snd (register_pids (fst batch1) [40, 20]))"
    by simp
  have e1: "pids_written (fst batch1) = [(10, 0), (20, 1), (30, 2)]" by code_simp
  have e2: "maxids (fst batch1) = 3" by code_simp
  have e3: "to_add (pids_written (fst batch1)) [40, 20] = [40]" by code_simp
  have e4: "map_of (pids_written (fst batch2)) 40 = Some 3" by code_simp
  note t = local_index_assignment[OF h1 h2 h3 h4]
  from t have u: "pids_written (snd (register_pids (fst batch1) [40, 20]))
      = pids_written (fst batch1) @
            zip (to_add (pids_written (fst batch1)) [40, 20])
                [maxids (fst batch1) ..<
                   maxids (fst batch1) + length (to_add (pids_written (fst batch1)) [40, 20])]"
    by blast
  have r1: "pids_written (snd (register_pids (fst batch1) [40, 20]))
      = [(10, 0), (20, 1), (30, 2), (40, 3)]"
    using u[unfolded e3] by (simp add: e1 e2)
  have r2: "fst (register_pids (fst batch1) [40, 20]) = Inr [3, 1]"
    using t by (simp add: r1)
  have r3: "map_of (pids_written (fst batch2)) 20 = Some 1"
    using t by (simp add: e1)
  show ?thesis using h1 e1 r1 r2 r3 e4 by simp
qed


subsection \<open>Observation counters\<close>

lemma np_take_ok: "np_take xs ks = Inr ys \<Longrightarrow> ys = map (\<lambda>k. xs ! k) ks \<and> (\<forall>k \<in> set ks. k < length xs)"
  by (induction ks arbitrary: ys) (auto split: if_splits sum.splits)

lemma length_prepare: "maxids' \<le> length (prepare_obs_written nf obs n maxids')"
  by (auto simp: prepare_obs_written_def Let_def)

lemma obs_at_prepare:
  assumes "nf = 0 \<longrightarrow> list_all (\<lambda>c. c = 0) obs"
  shows "obs_at (prepare_obs_written nf obs n m) k = obs_at obs k"
proof (cases "nf = 0")
  case True
  with assms have z: "\<forall>c \<in> set obs. c = 0" by (simp add: list_all_iff)
  then have "obs_at obs k = 0" by (auto simp: obs_at_def)
  moreover have "obs_at (prepare_obs_written nf obs n m) k = 0"
    using True by (auto simp: prepare_obs_written_def Let_def obs_at_def nth_append)
  ultimately show ?thesis by simp
next
  case False
  then show ?thesis
    by (auto simp: prepare_obs_written_def Let_def obs_at_def nth_append)
qed

lemma prepare_zero:
  "list_all (\<lambda>c. c = 0) obs \<Longrightarrow> list_all (\<lambda>c. c = 0) (prepare_obs_written nf obs n m)"
  by (auto simp: prepare_obs_written_def Let_def list_all_iff)

lemma prepare_zero0:
  "list_all (\<lambda>c. c = 0) (prepare_obs_written 0 obs n m)"
  by (auto simp: prepare_obs_written_def Let_def list_all_iff)

lemma obs_at_add_one:
  "obs_at (np_add_one_at a ks) k = (if k \<in> set ks \<and> k < length a then obs_at a k + 1 else obs_at a k)"
  by (auto simp: np_add_one_at_def obs_at_def)

lemma length_add_one: "length (np_add_one_at a ks) = length a"
  by (simp add: np_add_one_at_def)

lemma emit_chunk_cases:
  assumes "emit_chunk self pset pids ids dfdict fs = (out, self', pset', fs')"
  shows "pids_written self' = pids_written self \<and> maxids self' = maxids self
    \<and> ((\<not> is_Wrote out \<and> obs_written self' = obs_written self \<and> nfiles self' = nfiles self)
       \<or> (\<exists>nf. nfiles self = Some nf \<and> \<not> is_Wrote out
             \<and> obs_written self' = prepare_obs_written nf (obs_written self) (length ids) (maxids self)
             \<and> (nfiles self' = Some nf \<or> nfiles self' = Some (nf + 1)))
       \<or> (\<exists>nf f df. nfiles self = Some nf \<and> out = Wrote f df
             \<and> nfiles self' = Some (nf + 1)
             \<and> (\<forall>k \<in> set ids. k < length (prepare_obs_written nf (obs_written self) (length ids) (maxids self)))
             \<and> index df = zip pids (map (\<lambda>k. prepare_obs_written nf (obs_written self) (length ids) (maxids self) ! k) ids)
             \<and> obs_written self' = np_add_one_at
                   (prepare_obs_written nf (obs_written self) (length ids) (maxids self)) ids))"
proof (cases "nfiles self")
  case None
  with assms show ?thesis by (auto simp: emit_chunk_def)
next
  case (Some nf)
  let ?obs1 = "prepare_obs_written nf (obs_written self) (length ids) (maxids self)"
  show ?thesis
  proof (cases "np_take ?obs1 ids")
    case (Inl e)
    with assms Some show ?thesis by (auto simp: emit_chunk_def Let_def)
  next
    case (Inr obs)
    note t = np_take_ok[OF Inr]
    show ?thesis
    proof (cases "pd_DataFrame dfdict (zip pids obs)")
      case (Inl e)
      with assms Some Inr show ?thesis by (auto simp: emit_chunk_def Let_def)
    next
      case df: (Inr df)
      then have i: "index df = zip pids obs"
        by (auto simp: pd_DataFrame_def split: if_splits)
      show ?thesis
      proof (cases "to_parquet fs (fname self @ ''/p'' @ zero_padded 3 nf @ ''.parquet'') df")
        case (Inl e)
        with assms Some Inr df show ?thesis by (auto simp: emit_chunk_def Let_def)
      next
        case fs1: (Inr fs1)
        with assms Some Inr df i t show ?thesis by (auto simp: emit_chunk_def Let_def)
      qed
    qed
  qed
qed

lemma register_pids_state:
  "register_pids self pids = (Inr (local_ids self pids), register_state self pids)"
  by (simp add: register_pids_eq local_ids_def register_state_def)

lemma write_rows_cases:
  assumes "write_rows self pset idx fs = (out, self', pset', fs')"
  shows "(self' = self \<and> \<not> is_Wrote out)
       \<or> (\<exists>pids. getvardata_id pset idx = Inr pids \<and>
            ((self' = register_state self pids \<and> \<not> is_Wrote out)
             \<or> (\<exists>pset1 dfdict. emit_chunk (register_state self pids) pset1 pids
                     (local_ids self pids) dfdict fs = (out, self', pset', fs'))))"
  using assms
  by (auto simp: write_rows_def register_pids_state split: sum.splits prod.splits)

lemma registry_value_bound:
  assumes "map snd pw = [0 ..< length pw]" "map_of pw p = Some i"
  shows "i < length pw"
proof -
  from assms(2) have "(p, i) \<in> set pw" by (rule map_of_SomeD)
  then have "i \<in> set (map snd pw)" by force
  with assms(1) show ?thesis by simp
qed

lemma registry_injective:
  assumes "map snd pw = [0 ..< length pw]" "map_of pw p = Some i" "map_of pw q = Some i"
  shows "p = q"
proof -
  have d: "distinct (map snd pw)" using assms(1) by simp
  from assms(2,3) have "(p, i) \<in> set pw" "(q, i) \<in> set pw" by (auto dest: map_of_SomeD)
  have "inj_on snd (set pw)" using d by (simp add: distinct_map)
  from inj_onD[OF this, of "(p, i)" "(q, i)"] \<open>(p, i) \<in> set pw\<close> \<open>(q, i) \<in> set pw\<close>
  show ?thesis by simp
qed

lemma map_of_registered_old:
  "map_of pw p = Some i \<Longrightarrow> map_of (registered pw m pids) p = Some i"
  by (simp add: registered_def)

lemma map_of_registered_new:
  assumes "map_of pw p = None" "map_of (registered pw m pids) p = Some i"
  shows "m \<le> i"
proof -
  from assms have "map_of (zip (to_add pw pids) [m ..< m + length (to_add pw pids)]) p = Some i"
    by (simp add: registered_def map_add_def)
  then have "i \<in> set [m ..< m + length (to_add pw pids)]"
    by (meson map_of_SomeD set_zip_rightD)
  then show ?thesis by simp
qed

lemma map_of_registered_None:
  "map_of (registered pw m pids) p = None \<Longrightarrow> map_of pw p = None"
  by (simp add: registered_def)

lemma counter_register_state:
  assumes "counters_inv self"
  shows "(case map_of (pids_written (register_state self pids)) p of None \<Rightarrow> 0
            | Some i \<Rightarrow> obs_at (obs_written self) i) = counter self p"
proof (cases "map_of (pids_written self) p")
  case (Some i)
  then show ?thesis
    by (simp add: counter_def register_state_def map_of_registered_old)
next
  case None
  show ?thesis
  proof (cases "map_of (registered (pids_written self) (maxids self) pids) p")
    case n: None
    with None show ?thesis by (simp add: counter_def register_state_def)
  next
    case (Some i)
    from map_of_registered_new[OF None Some] have m: "maxids self \<le> i" .
    have "obs_at (obs_written self) i = 0"
    proof (cases "i < length (obs_written self)")
      case True
      with m assms show ?thesis
        by (auto simp: counters_inv_def list_all_iff obs_at_def)
    next
      case False then show ?thesis by (simp add: obs_at_def)
    qed
    with None Some show ?thesis by (simp add: counter_def register_state_def)
  qed
qed

lemma counters_inv_register_state:
  assumes "counters_inv self"
  shows "counters_inv (register_state self pids)"
proof -
  have r: "registry_inv (register_state self pids)"
    using assms registry_inv_registered[of self pids]
    by (simp add: counters_inv_def register_state_def)
  have m: "maxids self \<le> maxids (register_state self pids)"
    using assms by (simp add: counters_inv_def registry_inv_def register_state_def registered_def)
  have z: "list_all (\<lambda>k. obs_written self ! k = 0)
             [maxids (register_state self pids) ..< length (obs_written self)]"
    using assms m by (auto simp: counters_inv_def list_all_iff)
  show ?thesis
    using assms r z by (simp add: counters_inv_def register_state_def)
qed

lemma counter_register_state_eq:
  assumes "counters_inv self"
  shows "counter (register_state self pids) p = counter self p"
  using counter_register_state[OF assms, of pids p]
  by (simp add: counter_def register_state_def split: option.splits)

lemma local_ids_mem:
  assumes "registry_inv (register_state self pids)"
      and "map_of (pids_written (register_state self pids)) p = Some i"
  shows "i \<in> set (local_ids self pids) \<longleftrightarrow> p \<in> set pids"
proof
  assume "i \<in> set (local_ids self pids)"
  then obtain q where q: "q \<in> set pids"
      "i = the (map_of (registered (pids_written self) (maxids self) pids) q)"
    by (auto simp: local_ids_def)
  have "q \<in> set (dict_keys (registered (pids_written self) (maxids self) pids))"
    using q(1) by (simp add: keys_registered)
  then obtain j where j: "map_of (registered (pids_written self) (maxids self) pids) q = Some j"
    by (metis dict_keys_def domD dom_map_of_conv_image_fst set_map)
  with q(2) have "map_of (pids_written (register_state self pids)) q = Some i"
    by (simp add: register_state_def)
  from registry_injective[OF _ assms(2) this] assms(1) have "p = q"
    by (simp add: registry_inv_def)
  with q(1) show "p \<in> set pids" by simp
next
  assume "p \<in> set pids"
  moreover have "the (map_of (registered (pids_written self) (maxids self) pids) p) = i"
    using assms(2) by (simp add: register_state_def)
  ultimately show "i \<in> set (local_ids self pids)"
    by (force simp: local_ids_def)
qed

lemma local_ids_registered:
  assumes "p \<in> set pids"
  shows "\<exists>i. map_of (pids_written (register_state self pids)) p = Some i"
proof -
  have "p \<in> set (dict_keys (registered (pids_written self) (maxids self) pids))"
    using assms by (simp add: keys_registered)
  then obtain i where "map_of (registered (pids_written self) (maxids self) pids) p = Some i"
    by (metis dict_keys_def domD dom_map_of_conv_image_fst set_map)
  then show ?thesis by (simp add: register_state_def)
qed

lemma counter_cong:
  "pids_written a = pids_written b \<Longrightarrow> (\<And>i. obs_at (obs_written a) i = obs_at (obs_written b) i)
     \<Longrightarrow> counter a p = counter b p"
  by (simp add: counter_def split: option.splits)

lemma counters_inv_prepare:
  assumes "counters_inv self1" "nfiles self1 = Some nf"
      "pids_written self' = pids_written self1" "maxids self' = maxids self1"
      "obs_written self' = prepare_obs_written nf (obs_written self1) n (maxids self1)"
      "nfiles self' = Some nf \<or> nfiles self' = Some (nf + 1)"
  shows "counters_inv self'"
proof -
  let ?obs1 = "prepare_obs_written nf (obs_written self1) n (maxids self1)"
  have z: "nf = 0 \<longrightarrow> list_all (\<lambda>c. c = 0) (obs_written self1)"
    using assms(1,2) by (simp add: counters_inv_def)
  have r: "registry_inv self'"
    using assms(1,3,4) by (simp add: counters_inv_def registry_inv_def)
  have a: "nfiles self' = Some 0 \<longrightarrow> list_all (\<lambda>c. c = 0) (obs_written self')"
    using assms(5,6) by (auto simp: prepare_zero0)
  have b: "?obs1 ! k = 0" if "maxids self1 \<le> k" "k < length ?obs1" for k
  proof -
    have "?obs1 ! k = obs_at ?obs1 k" using that by (simp add: obs_at_def)
    also have "\<dots> = obs_at (obs_written self1) k" by (rule obs_at_prepare[OF z])
    also have "\<dots> = 0"
      using that(1) assms(1) by (auto simp: obs_at_def counters_inv_def list_all_iff)
    finally show ?thesis .
  qed
  then have c: "list_all (\<lambda>k. obs_written self' ! k = 0) [maxids self' ..< length (obs_written self')]"
    by (simp add: assms(4,5) list_all_iff)
  show ?thesis using r a c by (simp add: counters_inv_def)
qed

lemma emit_chunk_step:
  assumes inv: "counters_inv self1"
      and reg: "\<forall>p \<in> set pids. \<exists>i. map_of (pids_written self1) p = Some i"
      and ids: "ids = map (\<lambda>p. the (map_of (pids_written self1) p)) pids"
      and e: "emit_chunk self1 pset1 pids ids dfdict fs = (out, self', pset', fs')"
  shows "counters_inv self'
       \<and> (case out of
            Wrote f df \<Rightarrow> index df = map (\<lambda>p. (p, counter self1 p)) pids
                         \<and> (\<forall>p. counter self' p = counter self1 p + (if p \<in> set pids then 1 else 0))
          | _ \<Rightarrow> \<forall>p. counter self' p = counter self1 p)"
proof -
  have rinv: "registry_inv self1" using inv by (simp add: counters_inv_def)
  have vals: "map snd (pids_written self1) = [0 ..< length (pids_written self1)]"
    and mx: "maxids self1 = length (pids_written self1)"
    using rinv by (simp_all add: registry_inv_def)
  from emit_chunk_cases[OF e]
  have fr: "pids_written self' = pids_written self1" "maxids self' = maxids self1" by simp_all
  from emit_chunk_cases[OF e]
  consider (same) "\<not> is_Wrote out" "obs_written self' = obs_written self1" "nfiles self' = nfiles self1"
    | (grown) nf where "nfiles self1 = Some nf" "\<not> is_Wrote out"
        "obs_written self' = prepare_obs_written nf (obs_written self1) (length ids) (maxids self1)"
        "nfiles self' = Some nf \<or> nfiles self' = Some (nf + 1)"
    | (wrote) nf f df where "nfiles self1 = Some nf" "out = Wrote f df"
        "nfiles self' = Some (nf + 1)"
        "\<forall>k \<in> set ids. k < length (prepare_obs_written nf (obs_written self1) (length ids) (maxids self1))"
        "index df = zip pids (map (\<lambda>k. prepare_obs_written nf (obs_written self1) (length ids) (maxids self1) ! k) ids)"
        "obs_written self' = np_add_one_at
                   (prepare_obs_written nf (obs_written self1) (length ids) (maxids self1)) ids"
    by blast
  then show ?thesis
  proof cases
    case same
    have "counters_inv self'"
      using inv fr same by (auto simp: counters_inv_def registry_inv_def)
    moreover have "counter self' p = counter self1 p" for p
      by (rule counter_cong) (simp_all add: fr same)
    ultimately show ?thesis using same(1) by (cases out) auto
  next
    case grown
    have z: "nf = 0 \<longrightarrow> list_all (\<lambda>c. c = 0) (obs_written self1)"
      using inv grown(1) by (simp add: counters_inv_def)
    have "counters_inv self'"
      by (rule counters_inv_prepare[OF inv grown(1) fr grown(3,4)])
    moreover have "counter self' p = counter self1 p" for p
      by (rule counter_cong) (simp_all add: fr grown(3) obs_at_prepare[OF z])
    ultimately show ?thesis using grown(2) by (cases out) auto
  next
    case wrote
    define obs1 where "obs1 = prepare_obs_written nf (obs_written self1) (length ids) (maxids self1)"
    have w4: "\<forall>k \<in> set ids. k < length obs1"
      and w5: "index df = zip pids (map (\<lambda>k. obs1 ! k) ids)"
      and w6: "obs_written self' = np_add_one_at obs1 ids"
      using wrote(4,5,6) by (simp_all add: obs1_def)
    have z: "nf = 0 \<longrightarrow> list_all (\<lambda>c. c = 0) (obs_written self1)"
      using inv wrote(1) by (simp add: counters_inv_def)
    have at: "obs_at obs1 i = obs_at (obs_written self1) i" for i
      unfolding obs1_def by (rule obs_at_prepare[OF z])
    have len: "maxids self1 \<le> length obs1" unfolding obs1_def by (rule length_prepare)
    have idsb: "k < maxids self1" if "k \<in> set ids" for k
    proof -
      from that ids obtain q where q: "q \<in> set pids" "k = the (map_of (pids_written self1) q)"
        by auto
      with reg obtain i where "map_of (pids_written self1) q = Some i" by blast
      with q registry_value_bound[OF vals this] show ?thesis by (simp add: mx)
    qed
    \<comment> \<open>the invariant afterwards\<close>
    have mid: "counters_inv (self1\<lparr>obs_written := obs1\<rparr>)"
      unfolding obs1_def
      by (rule counters_inv_prepare[OF inv wrote(1), where n = "length ids"]) (simp_all add: wrote(1))
    have c3: "list_all (\<lambda>k. obs_written self' ! k = 0) [maxids self' ..< length (obs_written self')]"
    proof -
      have "np_add_one_at obs1 ids ! k = 0" if "maxids self1 \<le> k" "k < length obs1" for k
      proof -
        have "k \<notin> set ids" using idsb that(1) by fastforce
        then have "np_add_one_at obs1 ids ! k = obs1 ! k"
          using that(2) by (simp add: np_add_one_at_def)
        also have "\<dots> = 0"
          using mid that by (auto simp: counters_inv_def list_all_iff)
        finally show ?thesis .
      qed
      then show ?thesis by (simp add: w6 fr list_all_iff length_add_one)
    qed
    have i': "counters_inv self'"
      using rinv fr wrote(3) c3 by (auto simp: counters_inv_def registry_inv_def)
    \<comment> \<open>the rows\<close>
    have row: "obs1 ! (the (map_of (pids_written self1) p)) = counter self1 p" if "p \<in> set pids" for p
    proof -
      from reg that obtain i where i: "map_of (pids_written self1) p = Some i" by blast
      have "i < length obs1"
        using registry_value_bound[OF vals i] len mx by simp
      then have "obs1 ! i = obs_at obs1 i" by (simp add: obs_at_def)
      also have "\<dots> = obs_at (obs_written self1) i" by (rule at)
      finally show ?thesis using i by (simp add: counter_def)
    qed
    have "map (\<lambda>k. obs1 ! k) ids = map (counter self1) pids"
      unfolding ids using row by simp
    then have idx: "index df = map (\<lambda>p. (p, counter self1 p)) pids"
      unfolding w5 by (simp add: zip_map2 zip_same_conv_map)
    \<comment> \<open>the counters\<close>
    have cnt: "counter self' p = counter self1 p + (if p \<in> set pids then 1 else 0)" for p
    proof (cases "map_of (pids_written self1) p")
      case None
      with reg have "p \<notin> set pids" by auto
      with None show ?thesis by (simp add: counter_def fr)
    next
      case (Some i)
      have il: "i < length obs1"
        using registry_value_bound[OF vals Some] len mx by simp
      have mem: "i \<in> set ids \<longleftrightarrow> p \<in> set pids"
      proof
        assume "i \<in> set ids"
        with ids obtain q where q: "q \<in> set pids" "i = the (map_of (pids_written self1) q)" by auto
        with reg obtain j where j: "map_of (pids_written self1) q = Some j" by blast
        with q have "map_of (pids_written self1) q = Some i" by simp
        from registry_injective[OF vals Some this] q(1) show "p \<in> set pids" by simp
      next
        assume "p \<in> set pids"
        with Some ids show "i \<in> set ids" by force
      qed
      have "counter self' p = obs_at (np_add_one_at obs1 ids) i"
        using Some by (simp add: counter_def fr w6)
      also have "\<dots> = obs_at obs1 i + (if p \<in> set pids then 1 else 0)"
        using il mem by (simp add: obs_at_add_one)
      finally show ?thesis using Some by (simp add: counter_def at)
    qed
    show ?thesis using i' idx cnt by (simp add: wrote(2))
  qed
qed

lemma step_ok_not_Wrote: "\<not> is_Wrote out \<Longrightarrow> step_ok self out self' \<longleftrightarrow> (\<forall>p. counter self' p = counter self p)"
  by (cases out) (auto simp: step_ok_def)

lemma write_rows_step:
  assumes inv: "counters_inv self"
      and w: "write_rows self pset idx fs = (out, self', pset', fs')"
  shows "counters_inv self' \<and> step_ok self out self'"
proof -
  from write_rows_cases[OF w]
  consider (a) "self' = self" "\<not> is_Wrote out"
    | (b) pids where "self' = register_state self pids" "\<not> is_Wrote out"
    | (c) pids pset1 dfdict where
        "emit_chunk (register_state self pids) pset1 pids (local_ids self pids) dfdict fs
           = (out, self', pset', fs')"
    by blast
  then show ?thesis
  proof cases
    case a
    then show ?thesis using inv by (simp add: step_ok_not_Wrote)
  next
    case b
    then show ?thesis
      using counters_inv_register_state[OF inv] counter_register_state_eq[OF inv]
      by (simp add: step_ok_not_Wrote)
  next
    case c
    let ?s1 = "register_state self pids"
    have i1: "counters_inv ?s1" by (rule counters_inv_register_state[OF inv])
    have reg: "\<forall>p \<in> set pids. \<exists>i. map_of (pids_written ?s1) p = Some i"
      using local_ids_registered by blast
    have ids: "local_ids self pids = map (\<lambda>p. the (map_of (pids_written ?s1) p)) pids"
      by (simp add: local_ids_def register_state_def)
    from emit_chunk_step[OF i1 reg ids c]
    have e: "counters_inv self'"
      "case out of
            Wrote f df \<Rightarrow> index df = map (\<lambda>p. (p, counter ?s1 p)) pids
                         \<and> (\<forall>p. counter self' p = counter ?s1 p + (if p \<in> set pids then 1 else 0))
          | _ \<Rightarrow> \<forall>p. counter self' p = counter ?s1 p"
      by simp_all
    have "step_ok self out self'"
    proof (cases out)
      case (Wrote f df)
      with e(2) have x: "index df = map (\<lambda>p. (p, counter self p)) pids"
        "\<forall>p. counter self' p = counter self p + (if p \<in> set pids then 1 else 0)"
        by (simp_all add: counter_register_state_eq[OF inv])
      from x(1) have m: "map fst (index df) = pids" by (simp add: o_def)
      show ?thesis unfolding step_ok_def Wrote outcome.case
        by (simp only: m) (use x in blast)
    qed (use e(2) in \<open>simp_all add: step_ok_def counter_register_state_eq[OF inv]\<close>)
    with e(1) show ?thesis by simp
  qed
qed

lemma select_indices_counters:
  assumes "select_indices self pset time d = (r, self1)"
  shows "counters_inv self1 = counters_inv self \<and> (\<forall>p. counter self1 p = counter self p)"
proof -
  note f = select_indices_frame[OF assms]
  have "counter self1 p = counter self p" for p
    by (rule counter_cong) (use f in simp_all)
  moreover have "counters_inv self1 = counters_inv self"
    using f by (simp add: counters_inv_def registry_inv_def)
  ultimately show ?thesis by simp
qed

lemma step_ok_cong:
  "(\<And>p. counter a p = counter b p) \<Longrightarrow> step_ok a out self' = step_ok b out self'"
  by (cases out) (simp_all add: step_ok_def)

lemma write_step:
  assumes inv: "counters_inv self"
      and w: "write self pset t d fs = (out, self', pset', fs')"
  shows "counters_inv self' \<and> step_ok self out self'"
proof -
  consider (skip) "self' = self" "\<not> is_Wrote out"
    | (rows) idx self0 where "select_indices self pset (time_value t) d = (Inr idx, self0)"
        "write_rows self0 pset idx fs = (out, self', pset', fs')"
    | (other) r self0 where "select_indices self pset (time_value t) d = (r, self0)" "self' = self0"
        "\<not> is_Wrote out"
    using w by (auto simp: write_def Let_def split: if_splits sum.splits prod.splits)
  then show ?thesis
  proof cases
    case skip
    then show ?thesis using inv by (simp add: step_ok_not_Wrote)
  next
    case rows
    from select_indices_counters[OF rows(1)] inv
    have i0: "counters_inv self0" and c0: "\<And>p. counter self0 p = counter self p" by simp_all
    from write_rows_step[OF i0 rows(2)] step_ok_cong[of self0 self out self', OF c0]
    show ?thesis by simp
  next
    case other
    from select_indices_counters[OF other(1)] inv other(2,3)
    show ?thesis by (simp add: step_ok_not_Wrote)
  qed
qed

lemma emitted_obs_append: "emitted_obs (a @ b) p = emitted_obs a p @ emitted_obs b p"
  by (simp add: emitted_obs_def)

lemma filter_eq_distinct:
  "distinct xs \<Longrightarrow> filter (\<lambda>q. q = p) xs = (if p \<in> set xs then [p] else [])"
  by (induction xs) auto

lemma emitted_obs_single:
  assumes "index df = map (\<lambda>q. (q, c q)) pids" "distinct pids"
  shows "emitted_obs [df] p = (if p \<in> set pids then [c p] else [])"
proof -
  have "filter (\<lambda>row. fst row = p) (map (\<lambda>q. (q, c q)) pids)
      = map (\<lambda>q. (q, c q)) (filter (\<lambda>q. q = p) pids)"
    by (simp add: filter_map o_def)
  then show ?thesis
    using assms by (simp add: emitted_obs_def filter_eq_distinct)
qed

lemma init_counters_inv:
  assumes "fst (init name pset od mpi fs) = Inr self"
  shows "counters_inv self \<and> (\<forall>p. counter self p = 0)"
proof -
  have "pids_written self = []" "obs_written self = []"
    using assms by (auto simp: init_def Let_def split: if_splits sum.splits)
  with init_registry_inv[OF assms] show ?thesis
    by (simp add: counters_inv_def counter_def)
qed

lemma writes_obs:
  assumes "counters_inv self" "writes self fs calls = (self', fs', chunks)"
      and "\<forall>df \<in> set chunks. distinct (map fst (index df))"
  shows "counters_inv self' \<and> counter self p \<le> counter self' p
       \<and> emitted_obs chunks p = [counter self p ..< counter self' p]"
  using assms
proof (induction calls arbitrary: self fs chunks self' fs')
  case Nil
  then show ?case by (simp add: emitted_obs_def)
next
  case (Cons c calls)
  obtain pset t d where c: "c = (pset, t, d)" by (cases c) auto
  obtain out self1 pset1 fs1 where w: "write self pset t d fs = (out, self1, pset1, fs1)"
    by (metis prod_cases4)
  obtain self2 fs2 chunks2 where r: "writes self1 fs1 calls = (self2, fs2, chunks2)"
    by (metis prod_cases3)
  from Cons.prems(2) c w r have s: "self' = self2"
    and ch: "chunks = (case out of Wrote f df \<Rightarrow> [df] | _ \<Rightarrow> []) @ chunks2" by simp_all
  from write_step[OF Cons.prems(1) w] have i1: "counters_inv self1" and st: "step_ok self out self1"
    by simp_all
  have d2: "\<forall>df \<in> set chunks2. distinct (map fst (index df))"
    using Cons.prems(3) ch by simp
  from Cons.IH[OF i1 r d2]
  have ih: "counters_inv self2" "counter self1 p \<le> counter self2 p"
    "emitted_obs chunks2 p = [counter self1 p ..< counter self2 p]" by simp_all
  have first: "counter self p \<le> counter self1 p
      \<and> emitted_obs (case out of Wrote f df \<Rightarrow> [df] | _ \<Rightarrow> []) p = [counter self p ..< counter self1 p]"
  proof (cases out)
    case (Wrote f df)
    with st have x: "index df = map (\<lambda>q. (q, counter self q)) (map fst (index df))"
      "counter self1 p = counter self p + (if p \<in> set (map fst (index df)) then 1 else 0)"
      by (simp_all add: step_ok_def)
    have "distinct (map fst (index df))" using Cons.prems(3) ch Wrote by simp
    from emitted_obs_single[OF x(1) this, of p] x(2) Wrote show ?thesis by simp
  qed (use st in \<open>simp_all add: step_ok_def emitted_obs_def\<close>)
  have "emitted_obs chunks p = [counter self p ..< counter self1 p] @ [counter self1 p ..< counter self2 p]"
    using first ih(3) by (simp add: ch emitted_obs_append)
  also have "\<dots> = [counter self p ..< counter self2 p]"
    using first ih(2) by (metis le_Suc_ex upt_add_eq_append)
  finally show ?case using ih first s by simp
qed

text \<open>
  Claim C1, as stated, fails for a write whose index list names a particle twice: both rows
  of the chunk carry the same observation index, and the counter grows by one only.
\<close>

theorem twice_selected_counterexample:
  "emitted_obs (snd (snd twice_selected)) 5 \<noteq> [0 ..< length (emitted_obs (snd (snd twice_selected)) 5)]"
  by code_simp

text \<open>
  Claim C1, amended. Take any sequence of writes on a freshly constructed writer in which
  no emitted chunk lists an identity twice. Then, for every identity \<open>p\<close>, the observation
  indices of its rows, over all chunks in emission order, are \<open>0, 1, \<dots>, k - 1\<close>, whatever
  other identities the chunks hold, and \<open>k\<close> is its counter in the writer. A further write
  that emits a chunk gives every selected identity its current counter as observation
  index, adds exactly one to the counter of each selected identity and leaves the other
  counters unchanged; a further write that emits nothing changes no counter.
\<close>

theorem observation_indices_consecutive:
  assumes "fst (init name pset0 od mpi fs0) = Inr self0"
      and "writes self0 fs calls = (self, fs', chunks)"
      and "\<forall>df \<in> set chunks. distinct (map fst (index df))"
      and "write self pset t d fs' = (out, self1, pset1, fs1)"
  shows "emitted_obs chunks p = [0 ..< length (emitted_obs chunks p)]
       \<and> counter self p = length (emitted_obs chunks p)
       \<and> (case out of
            Wrote f df \<Rightarrow>
              index df = map (\<lambda>q. (q, counter self q)) (map fst (index df))
              \<and> (\<forall>q. counter self1 q
                       = counter self q + (if q \<in> set (map fst (index df)) then 1 else 0))
          | _ \<Rightarrow> \<forall>q. counter self1 q = counter self q)"
proof -
  from init_counters_inv[OF assms(1)]
  have i0: "counters_inv self0" and c0: "counter self0 p = 0" by simp_all
  from writes_obs[OF i0 assms(2,3), of p] c0
  have i: "counters_inv self" and e: "emitted_obs chunks p = [0 ..< counter self p]" by simp_all
  from e have l: "counter self p = length (emitted_obs chunks p)" by simp
  from write_step[OF i assms(4)] have "step_ok self out self1" by simp
  then show ?thesis using e l by (simp add: step_ok_def)
qed

theorem observation_indices_consecutive_witness:
  "fst (init ''out.parquet'' (example_pset plain_ptype [1, 2]) False None empty_fs)
     = Inr (example_writer plain_ptype False)
   \<and> map index (snd (snd scenario)) = [[(1, 0), (2, 0)], [(1, 1), (2, 1), (3, 0)]]
   \<and> list_all (\<lambda>df. distinct (map fst (index df))) (snd (snd scenario))
   \<and> emitted_obs (snd (snd scenario)) 1 = [0, 1]
   \<and> emitted_obs (snd (snd scenario)) 3 = [0]
   \<and> counter (fst scenario) 1 = 2
   \<and> counter (fst scenario) 3 = 1
   \<and> is_Wrote (outcome_of (write (fst scenario) (example_pset plain_ptype [3, 4]) (Seconds 2)
          DFalse (fst (snd scenario))))
   \<and> counter (writer_of (write (fst scenario) (example_pset plain_ptype [3, 4]) (Seconds 2)
          DFalse (fst (snd scenario)))) 3 = 2
   \<and> counter (writer_of (write (fst scenario) (example_pset plain_ptype [3, 4]) (Seconds 2)
          DFalse (fst (snd scenario)))) 1 = 2"
proof -
  let ?r = "write (fst scenario) (example_pset plain_ptype [3, 4]) (Seconds 2)
          DFalse (fst (snd scenario))"
  have h1: "fst (init ''out.parquet'' (example_pset plain_ptype [1, 2]) False None empty_fs)
     = Inr (example_writer plain_ptype False)"
    by code_simp
  have h2: "writes (example_writer plain_ptype False) example_fs scenario_calls
     = (fst scenario, fst (snd scenario), snd (snd scenario))"
    by (simp add: scenario_def)
  have h3: "\<forall>df \<in> set (snd (snd scenario)). distinct (map fst (index df))"
    by code_simp
  have h4: "?r = (outcome_of ?r, writer_of ?r, collection_of ?r, filesystem_of ?r)"
    by (simp add: outcome_of_def writer_of_def collection_of_def filesystem_of_def)
  have e1: "map index (snd (snd scenario)) = [[(1, 0), (2, 0)], [(1, 1), (2, 1), (3, 0)]]"
    by code_simp
  have e2: "emitted_obs (snd (snd scenario)) 1 = [0, 1]" "emitted_obs (snd (snd scenario)) 3 = [0]"
    by code_simp+
  have e3: "outcome_of ?r = Wrote ''out.parquet/p002.parquet''
      \<lparr>index = [(3, 1), (4, 0)], columns = [(''lon'', [IntVal 300, IntVal 400])]\<rparr>"
    by code_simp
  note t1 = observation_indices_consecutive[OF h1 h2 h3 h4, of 1]
  note t3 = observation_indices_consecutive[OF h1 h2 h3 h4, of 3]
  have c1: "counter (fst scenario) 1 = 2" using t1 by (simp add: e2)
  have c3: "counter (fst scenario) 3 = 1" using t3 by (simp add: e2)
  have a3: "counter (writer_of ?r) 3 = 2" using t3 c3 by (simp add: e3)
  have a1: "counter (writer_of ?r) 1 = 2" using t1 c1 by (simp add: e3)
  have h3': "list_all (\<lambda>df. distinct (map fst (index df))) (snd (snd scenario))"
    using h3 by (simp add: list_all_iff)
  show ?thesis using h1 h3' e1 e2 c1 c3 a1 a3 by (simp add: e3)
qed

subsection \<open>A write that succeeds\<close>

lemma rfind_append_sep:
  "c \<notin> set rest \<Longrightarrow> rfind c (d @ c # rest) = Some (length d)"
proof (induction d)
  case Nil
  have "rfind c rest = None" using Nil by (induction rest) (auto split: option.splits)
  then show ?case by simp
next
  case (Cons x d) then show ?case by simp
qed

lemma decimal_digits: "set (decimal n) \<subseteq> set ''0123456789''"
proof (induction n rule: decimal.induct)
  case (1 n)
  have d: "''0123456789'' ! k \<in> set ''0123456789''" if "k < 10" for k
    using that nth_mem[of k "''0123456789''"] by simp
  show ?case
  proof (cases "n < 10")
    case True
    then show ?thesis using d[of n] by (subst decimal.simps) simp
  next
    case False
    have "n mod 10 < 10" by simp
    from d[OF this] 1[OF False] False show ?thesis
      by (subst decimal.simps) simp
  qed
qed

lemma zero_padded_no_sep: "CHR ''/'' \<notin> set (zero_padded w n)"
  using decimal_digits[of n] by (auto simp: zero_padded_def)

lemma dirname_chunk: "dirname (d @ ''/p'' @ zero_padded 3 nf @ ''.parquet'') = d"
proof -
  have "CHR ''/'' \<notin> set (''p'' @ zero_padded 3 nf @ ''.parquet'')"
    using zero_padded_no_sep by simp
  from rfind_append_sep[OF this, of d] show ?thesis
    by (simp add: dirname_def)
qed

lemma to_parquet_ok:
  assumes "fs d = Some Directory" "fs (d @ ''/p'' @ zero_padded 3 nf @ ''.parquet'') \<noteq> Some Directory"
  shows "to_parquet fs (d @ ''/p'' @ zero_padded 3 nf @ ''.parquet'') df
       = Inr (fs(d @ ''/p'' @ zero_padded 3 nf @ ''.parquet'' \<mapsto> ParquetFile df))"
  unfolding to_parquet_def dirname_chunk using assms by simp

lemma take_indices_ok:
  "valid_indices (length xs) idx \<Longrightarrow> \<exists>ys. take_indices xs idx = Inr ys \<and> length ys = length idx"
  by (induction idx) (auto simp: valid_indices_def norm_index_def)

lemma length_setvardata: "length (setvardata_once_written ps is vs) = length ps"
  by (induction ps "is" vs rule: setvardata_once_written.induct) (auto split: option.splits)

lemma valid_indices_once:
  assumes "valid_indices n idx"
  shows "valid_indices n (map (\<lambda>k. idx ! k) (once_ids_of flags)) \<or> \<not> length flags \<le> length idx"
proof (cases "length flags \<le> length idx")
  case True
  have "set (once_ids_of flags) \<subseteq> {0 ..< length flags}"
    by (auto simp: once_ids_of_def np_where_def)
  with True have "\<forall>k \<in> set (once_ids_of flags). idx ! k \<in> set idx" by fastforce
  with assms show ?thesis by (auto simp: valid_indices_def list_all_iff)
qed simp

lemma dict_set_columns:
  "list_all (\<lambda>(name, col). length col = n) acc \<Longrightarrow> length c = n
     \<Longrightarrow> list_all (\<lambda>(name, col). length col = n) (dict_set acc k c)"
  by (induction acc) auto

lemma build_dfdict_ok:
  assumes "valid_indices (ncount pset) idx"
      and "list_all (\<lambda>(var, dt). convert_varout_name var = ''trajectory'' \<or> write_once self var = Inr False) vs"
      and "list_all (\<lambda>(name, col). length col = length idx) acc"
  shows "\<exists>dfdict. build_dfdict self pset idx idx1 vs acc = Inr dfdict
            \<and> list_all (\<lambda>(name, col). length col = length idx) dfdict"
  using assms
proof (induction vs arbitrary: acc)
  case Nil then show ?case by simp
next
  case (Cons v vs)
  obtain var dt where v: "v = (var, dt)" by (cases v) auto
  show ?case
  proof (cases "convert_varout_name var = ''trajectory''")
    case True
    with Cons v show ?thesis by simp
  next
    case False
    with Cons.prems(2) v have w: "write_once self var = Inr False" by simp
    from take_indices_ok[of "map (var_value var) (particles pset)" idx] Cons.prems(1)
    obtain col where col: "getvardata pset var idx = Inr col" "length col = length idx"
      by (auto simp: getvardata_def ncount_def)
    from Cons.IH[OF Cons.prems(1), of "dict_set acc (convert_varout_name var) col"]
      Cons.prems(2) dict_set_columns[OF Cons.prems(3) col(2)]
    show ?thesis using False w col v by simp
  qed
qed

lemma pd_DataFrame_ok:
  "list_all (\<lambda>(name, col). length col = length idx) data
     \<Longrightarrow> pd_DataFrame data idx = Inr \<lparr>index = idx, columns = data\<rparr>"
proof -
  assume a: "list_all (\<lambda>(name, col). length col = length idx) data"
  then have 1: "list_all (\<lambda>(name, col). length col = length idx \<or> length col = 1) data"
    by (auto simp: list_all_iff)
  have 2: "map (\<lambda>(name, col). (name, if length col = length idx then col
                           else replicate (length idx) (hd col))) data = data"
    using a by (induction data) auto
  show ?thesis using 1 2 by (simp add: pd_DataFrame_def)
qed

lemma np_take_all:
  "\<forall>k \<in> set ks. k < length xs \<Longrightarrow> np_take xs ks = Inr (map (\<lambda>k. xs ! k) ks)"
  by (induction ks) auto

lemma local_ids_bound:
  assumes "registry_inv self" "k \<in> set (local_ids self pids)"
  shows "k < maxids (register_state self pids)"
proof -
  let ?s1 = "register_state self pids"
  have r: "registry_inv ?s1"
    using registry_inv_registered[OF assms(1), of pids] by (simp add: register_state_def)
  from assms(2) obtain p where p: "p \<in> set pids" "k = the (map_of (pids_written ?s1) p)"
    by (auto simp: local_ids_def register_state_def)
  from local_ids_registered[OF p(1), of self] obtain i where i: "map_of (pids_written ?s1) p = Some i"
    by blast
  from r have "map snd (pids_written ?s1) = [0 ..< length (pids_written ?s1)]"
    "maxids ?s1 = length (pids_written ?s1)" by (simp_all add: registry_inv_def)
  with registry_value_bound[OF _ i] p(2) i show ?thesis by simp
qed

lemma emit_chunk_ok:
  assumes nf: "nfiles self1 = Some nf"
      and ids: "\<forall>k \<in> set ids. k < maxids self1"
      and len: "length ids = length pids"
      and cols: "list_all (\<lambda>(name, col). length col = length pids) dfdict"
      and dir: "fs (fname self1) = Some Directory"
      and tgt: "fs (fname self1 @ ''/p'' @ zero_padded 3 nf @ ''.parquet'') \<noteq> Some Directory"
  shows "\<exists>df self'. emit_chunk self1 pset1 pids ids dfdict fs
           = (Wrote (fname self1 @ ''/p'' @ zero_padded 3 nf @ ''.parquet'') df, self', pset1,
              fs(fname self1 @ ''/p'' @ zero_padded 3 nf @ ''.parquet'' \<mapsto> ParquetFile df))
         \<and> map fst (index df) = pids \<and> columns df = dfdict \<and> nfiles self' = Some (nf + 1)"
proof -
  define obs1 where "obs1 = prepare_obs_written nf (obs_written self1) (length ids) (maxids self1)"
  have "maxids self1 \<le> length obs1" unfolding obs1_def by (rule length_prepare)
  with ids have "\<forall>k \<in> set ids. k < length obs1" by fastforce
  then have t: "np_take obs1 ids = Inr (map (\<lambda>k. obs1 ! k) ids)" by (rule np_take_all)
  define obs where "obs = map (\<lambda>k. obs1 ! k) ids"
  have lz: "length (zip pids obs) = length pids" by (simp add: obs_def len)
  have d: "pd_DataFrame dfdict (zip pids obs) = Inr \<lparr>index = zip pids obs, columns = dfdict\<rparr>"
    by (rule pd_DataFrame_ok) (simp only: lz cols)
  have p: "to_parquet fs (fname self1 @ ''/p'' @ zero_padded 3 nf @ ''.parquet'')
              \<lparr>index = zip pids obs, columns = dfdict\<rparr>
         = Inr (fs(fname self1 @ ''/p'' @ zero_padded 3 nf @ ''.parquet''
                 \<mapsto> ParquetFile \<lparr>index = zip pids obs, columns = dfdict\<rparr>))"
    by (rule to_parquet_ok[OF dir tgt])
  have m: "map fst (zip pids obs) = pids" by (simp add: obs_def len)
  show ?thesis
    unfolding emit_chunk_def nf option.case Let_def
    unfolding obs1_def[symmetric] t sum.case obs_def[symmetric] d
    using p m by simp
qed

lemma write_once_register_state:
  "write_once (register_state self pids) var = write_once self var"
  by (simp add: write_once_def register_state_def)

lemma write_rows_ok:
  assumes inv: "registry_inv self"
      and idx: "valid_indices (ncount pset) idx"
      and once: "no_write_once self"
      and nf: "nfiles self = Some nf"
      and dir: "fs (fname self) = Some Directory"
      and tgt: "fs (fname self @ ''/p'' @ zero_padded 3 nf @ ''.parquet'') \<noteq> Some Directory"
  shows "\<exists>pids df self' pset'. write_rows self pset idx fs
           = (Wrote (fname self @ ''/p'' @ zero_padded 3 nf @ ''.parquet'') df, self', pset',
              fs(fname self @ ''/p'' @ zero_padded 3 nf @ ''.parquet'' \<mapsto> ParquetFile df))
         \<and> getvardata_id pset idx = Inr pids \<and> map fst (index df) = pids
         \<and> nfiles self' = Some (nf + 1)"
proof -
  let ?s1 = "\<lambda>pids. register_state self pids"
  from take_indices_ok[of "map pid (particles pset)" idx] idx
  obtain pids where pids: "getvardata_id pset idx = Inr pids" "length pids = length idx"
    by (auto simp: getvardata_id_def ncount_def)
  from take_indices_ok[of "map once_written (particles pset)" idx] idx
  obtain flags where flags: "getvardata_once_written pset idx = Inr flags" "length flags = length idx"
    by (auto simp: getvardata_once_written_def ncount_def)
  obtain idx1 pset1 where mk: "mark_once_written pset idx (local_ids self pids) flags = (idx1, pset1)"
    by (cases "mark_once_written pset idx (local_ids self pids) flags") auto
  then have n1: "ncount pset1 = ncount pset"
    by (auto simp: mark_once_written_def Let_def ncount_def length_setvardata)
  have o1: "list_all (\<lambda>(var, dt). convert_varout_name var = ''trajectory''
              \<or> write_once (?s1 pids) var = Inr False) (vars_to_write (?s1 pids))"
  proof -
    have "vars_to_write (?s1 pids) = vars_to_write self" by (simp add: register_state_def)
    then show ?thesis using once by (simp only: no_write_once_def write_once_register_state)
  qed
  from build_dfdict_ok[of pset1 idx "?s1 pids" "vars_to_write (?s1 pids)" "[]" idx1] idx n1 o1
  obtain dfdict where df: "build_dfdict (?s1 pids) pset1 idx idx1 (vars_to_write (?s1 pids)) [] = Inr dfdict"
      "list_all (\<lambda>(name, col). length col = length idx) dfdict"
    by auto
  have e1: "nfiles (?s1 pids) = Some nf" "fname (?s1 pids) = fname self"
    using nf by (simp_all add: register_state_def)
  have e2: "\<forall>k \<in> set (local_ids self pids). k < maxids (?s1 pids)"
    using local_ids_bound[OF inv] by blast
  have e3: "length (local_ids self pids) = length pids" by (simp add: local_ids_def)
  from emit_chunk_ok[of "?s1 pids" nf "local_ids self pids" pids dfdict fs pset1, OF e1(1) e2 e3]
    df(2) dir tgt pids(2) e1(2)
  obtain df' self' where em: "emit_chunk (?s1 pids) pset1 pids (local_ids self pids) dfdict fs
           = (Wrote (fname self @ ''/p'' @ zero_padded 3 nf @ ''.parquet'') df', self', pset1,
              fs(fname self @ ''/p'' @ zero_padded 3 nf @ ''.parquet'' \<mapsto> ParquetFile df'))"
      "map fst (index df') = pids" "nfiles self' = Some (nf + 1)"
    by auto
  have "write_rows self pset idx fs
           = (Wrote (fname self @ ''/p'' @ zero_padded 3 nf @ ''.parquet'') df', self', pset1,
              fs(fname self @ ''/p'' @ zero_padded 3 nf @ ''.parquet'' \<mapsto> ParquetFile df'))"
    by (simp add: write_rows_def pids(1) register_pids_state flags(1) mk df(1) em(1))
  with pids(1) em(2,3) show ?thesis by blast
qed

lemma select_indices_deletion:
  "d \<noteq> DFalse \<Longrightarrow> select_indices self pset time d = (r, self0) \<Longrightarrow> self0 = self"
  by (cases d) (auto simp: select_indices_def split: if_splits)

lemma example_writer_registry_inv: "registry_inv (example_writer vs od)"
  by (simp add: registry_inv_def example_writer_def dict_keys_def)

lemma no_write_once_plain: "no_write_once (example_writer plain_ptype od)"
  by code_simp

subsection \<open>Deletion subsets and the time gate\<close>

text \<open>
  Claim C3, as stated, fails: in periodic mode, after a periodic write at time 0, a call at
  time 0 with the deletion subset \<open>[0]\<close> (which resolves to the non-empty index array
  \<open>[0]\<close>) is skipped.
\<close>

theorem deletion_subset_same_time_counterexample:
  "write_ondelete (writer_of first_write) = False
   \<and> lasttime_written (writer_of first_write) = Some (time_value (Seconds 0))
   \<and> fst (select_indices (writer_of first_write) (collection_of first_write)
             (time_value (Seconds 0)) (DList [0])) = Inr [0]
   \<and> outcome_of (write (writer_of first_write) (collection_of first_write) (Seconds 0)
             (DList [0]) (filesystem_of first_write)) = Skipped"
  by code_simp

text \<open>
  Claim C3, amended. Let a deletion subset be supplied and resolve to a non-empty index
  array. If the given time equals the last periodic write time, the call is skipped and
  nothing changes: the time-equality skip applies to every call, with or without a deletion
  subset. If the time differs and the population is not empty, the resolved rows go to
  chunk assembly, in periodic and in on-deletion mode alike; and the chunk is assembled and
  persisted as file \<^verbatim>\<open>p<nfiles>.parquet\<close> of the output directory when the registry is
  a bijection (as in every reachable state), the indices are in range, no output column is
  a write-once variable, the chunk counter exists, and the output directory exists with no
  directory at the file's path.
\<close>

theorem deletion_subset_gate:
  assumes d: "d \<noteq> DFalse"
      and sel: "select_indices self pset (time_value t) d = (Inr idx, self0)"
      and ne: "idx \<noteq> []"
  shows "(lasttime_written self = Some (time_value t) \<longrightarrow>
            write self pset t d fs = (Skipped, self, pset, fs))
       \<and> (lasttime_written self \<noteq> Some (time_value t) \<and> ncount pset \<noteq> 0 \<longrightarrow>
            write self pset t d fs = write_rows self pset idx fs)
       \<and> (lasttime_written self \<noteq> Some (time_value t) \<and> ncount pset \<noteq> 0
            \<and> registry_inv self \<and> valid_indices (ncount pset) idx \<and> no_write_once self
            \<and> nfiles self = Some nf \<and> fs (fname self) = Some Directory
            \<and> fs (fname self @ ''/p'' @ zero_padded 3 nf @ ''.parquet'') \<noteq> Some Directory \<longrightarrow>
            (\<exists>pids df self' pset'.
               write self pset t d fs
                 = (Wrote (fname self @ ''/p'' @ zero_padded 3 nf @ ''.parquet'') df, self', pset',
                    fs(fname self @ ''/p'' @ zero_padded 3 nf @ ''.parquet'' \<mapsto> ParquetFile df))
               \<and> getvardata_id pset idx = Inr pids \<and> map fst (index df) = pids))"
proof -
  have s0: "self0 = self" using select_indices_deletion[OF d sel] .
  have a: "write self pset t d fs = (Skipped, self, pset, fs)"
    if "lasttime_written self = Some (time_value t)"
    using that by (simp add: write_def)
  have b: "write self pset t d fs = write_rows self pset idx fs"
    if "lasttime_written self \<noteq> Some (time_value t)" "ncount pset \<noteq> 0"
    using that d sel ne s0 by (simp add: write_def Let_def)
  have c: "\<exists>pids df self' pset'.
               write self pset t d fs
                 = (Wrote (fname self @ ''/p'' @ zero_padded 3 nf @ ''.parquet'') df, self', pset',
                    fs(fname self @ ''/p'' @ zero_padded 3 nf @ ''.parquet'' \<mapsto> ParquetFile df))
               \<and> getvardata_id pset idx = Inr pids \<and> map fst (index df) = pids"
    if "lasttime_written self \<noteq> Some (time_value t)" "ncount pset \<noteq> 0"
       "registry_inv self" "valid_indices (ncount pset) idx" "no_write_once self"
       "nfiles self = Some nf" "fs (fname self) = Some Directory"
       "fs (fname self @ ''/p'' @ zero_padded 3 nf @ ''.parquet'') \<noteq> Some Directory"
    using write_rows_ok[OF that(3,4,5,6,7,8)] b[OF that(1,2)] by metis
  show ?thesis using a b c by blast
qed

theorem deletion_subset_gate_witness:
  "DList [1] \<noteq> DFalse
   \<and> select_indices (example_writer plain_ptype True) (example_pset plain_ptype [1, 2, 3])
        (time_value (Seconds 2)) (DList [1]) = (Inr [1], example_writer plain_ptype True)
   \<and> [1 :: int] \<noteq> []
   \<and> lasttime_written (example_writer plain_ptype True) \<noteq> Some (time_value (Seconds 2))
   \<and> ncount (example_pset plain_ptype [1, 2, 3]) \<noteq> 0
   \<and> registry_inv (example_writer plain_ptype True)
   \<and> valid_indices (ncount (example_pset plain_ptype [1, 2, 3])) [1]
   \<and> no_write_once (example_writer plain_ptype True)
   \<and> nfiles (example_writer plain_ptype True) = Some 0
   \<and> example_fs (fname (example_writer plain_ptype True)) = Some Directory
   \<and> is_Wrote (outcome_of ondelete_result)
   \<and> outcome_of ondelete_result
        = Wrote ''out.parquet/p000.parquet''
            \<lparr>index = [(2, 0)], columns = [(''lon'', [IntVal 200])]\<rparr>
   \<and> lasttime_written (writer_of first_write) = Some (time_value (Seconds 0))
   \<and> write (writer_of first_write) (collection_of first_write) (Seconds 0) (DList [0]) example_fs
        = (Skipped, writer_of first_write, collection_of first_write, example_fs)"
proof -
  let ?W = "example_writer plain_ptype True" and ?P = "example_pset plain_ptype [1, 2, 3]"
  have h1: "DList [1] \<noteq> DFalse" by simp
  have h2: "select_indices ?W ?P (time_value (Seconds 2)) (DList [1]) = (Inr [1], ?W)"
    by (simp add: select_indices_def)
  have h3: "[1 :: int] \<noteq> []" by simp
  have g1: "lasttime_written ?W \<noteq> Some (time_value (Seconds 2))" by (simp add: example_writer_def)
  have g2: "ncount ?P \<noteq> 0" by (simp add: ncount_def example_pset_def)
  have g3: "registry_inv ?W" by (rule example_writer_registry_inv)
  have g4: "valid_indices (ncount ?P) [1]" by (simp add: valid_indices_def ncount_def example_pset_def)
  have g5: "no_write_once ?W" by (rule no_write_once_plain)
  have g6: "nfiles ?W = Some 0" "fname ?W = ''out.parquet''" by (simp_all add: example_writer_def)
  have g7: "example_fs (fname ?W) = Some Directory" by (simp add: g6 example_fs_def)
  have g8: "example_fs (fname ?W @ ''/p'' @ zero_padded 3 0 @ ''.parquet'') \<noteq> Some Directory"
    by (simp add: g6 example_fs_def empty_fs_def)
  from deletion_subset_gate[OF h1 h2 h3, where fs = example_fs and nf = 0] g1 g2 g3 g4 g5 g6(1) g7 g8
  obtain pids df self' pset' where w: "write ?W ?P (Seconds 2) (DList [1]) example_fs
        = (Wrote (fname ?W @ ''/p'' @ zero_padded 3 0 @ ''.parquet'') df, self', pset',
           example_fs(fname ?W @ ''/p'' @ zero_padded 3 0 @ ''.parquet'' \<mapsto> ParquetFile df))"
    by blast
  then have iw: "is_Wrote (outcome_of ondelete_result)"
    by (simp add: ondelete_result_def outcome_of_def)
  have e: "outcome_of ondelete_result
        = Wrote ''out.parquet/p000.parquet''
            \<lparr>index = [(2, 0)], columns = [(''lon'', [IntVal 200])]\<rparr>"
    by code_simp
  have k1: "DList [0] \<noteq> DFalse" by simp
  have k2: "select_indices (writer_of first_write) (collection_of first_write)
        (time_value (Seconds 0)) (DList [0]) = (Inr [0], writer_of first_write)"
    by (simp add: select_indices_def)
  have k3: "[0 :: int] \<noteq> []" by simp
  have k4: "lasttime_written (writer_of first_write) = Some (time_value (Seconds 0))"
    by code_simp
  from deletion_subset_gate[OF k1 k2 k3, where fs = example_fs] k4
  have s: "write (writer_of first_write) (collection_of first_write) (Seconds 0) (DList [0]) example_fs
        = (Skipped, writer_of first_write, collection_of first_write, example_fs)"
    by blast
  show ?thesis using h1 h2 h3 g1 g2 g3 g4 g5 g6(1) g7 iw e k4 s by simp
qed

subsection \<open>Write-once variables\<close>

text \<open>
  Claim C2 does not hold of the code. The schema has the write-once variable \<^verbatim>\<open>age0\<close>.
  The first write of particle 1 emits chunk \<^verbatim>\<open>p000\<close> with its \<^verbatim>\<open>age0\<close> value and sets
  its once-written flag. At the second write of the same particle the write-once column is
  fetched for the empty subset, so it has length 0 against an index of length 1: the data
  frame cannot be built, the call raises \<^verbatim>\<open>ValueError\<close> and no chunk \<^verbatim>\<open>p001\<close> is
  persisted, although the time has been recorded already.
\<close>

theorem write_once_second_write_raises:
  "fst (init ''out.parquet'' (example_pset once_ptype [1]) False None empty_fs)
     = Inr (example_writer once_ptype False)
   \<and> outcome_of once_first
       = Wrote ''out.parquet/p000.parquet''
           \<lparr>index = [(1, 0)],
            columns = [(''lon'', [IntVal 100]), (''age0'', [IntVal 100])]\<rparr>
   \<and> map once_written (particles (collection_of once_first)) = [1]
   \<and> outcome_of once_second = Raised ValueError
   \<and> filesystem_of once_second ''out.parquet/p001.parquet'' = None
   \<and> nfiles (writer_of once_second) = Some 1
   \<and> lasttime_written (writer_of once_second) = Some 1"
  by code_simp

text \<open>
  When the second write selects particle 1 again together with a new particle 2, the
  write-once column has length one and is repeated over the index: the row of identity 1
  in chunk \<^verbatim>\<open>p001\<close> carries the \<^verbatim>\<open>age0\<close> value of particle 2.
\<close>

lemma write_once_column_repeated:
  "outcome_of once_with_newcomer
     = Wrote ''out.parquet/p001.parquet''
         \<lparr>index = [(1, 1), (2, 0)],
          columns = [(''lon'', [IntVal 100, IntVal 200]), (''age0'', [IntVal 200, IntVal 200])]\<rparr>"
  by code_simp

end
